theory Spec2Isabelle
  imports Complex_Main "HOL-Library.Word"
begin

unbundle bit_operations_syntax

section \<open>Bytes, buffers, errors\<close>

text \<open>
  A Node.js \<open>Buffer\<close> is modelled by the list of its bytes wherever only its content
  matters. (The one place where the sharing of memory between two buffers decides a
  property, the authenticator of a packet, has a store of its own further down.)
  A JavaScript exception is a value of type \<open>error\<close>; a function that can throw returns
  \<open>error + 'a\<close>, with \<open>Inl\<close> for the exception.
\<close>

type_synonym byte = "8 word"
type_synonym buffer = "byte list"

datatype error = TypeError string | RangeError string | ParseError string | Error string

text \<open>\<open>Buffer.alloc(n)\<close>: \<open>n\<close> zero bytes.\<close>

definition Buffer_alloc :: "nat \<Rightarrow> buffer" where
  "Buffer_alloc n = replicate n 0"

text \<open>\<open>buf.slice(start, end)\<close> for \<open>0 \<le> start\<close>: the end is clamped to the length.\<close>

definition slice :: "buffer \<Rightarrow> nat \<Rightarrow> nat \<Rightarrow> buffer" where
  "slice b s e = take (e - s) (drop s b)"

text \<open>\<open>src.copy(target, targetStart)\<close>: copies as much of \<open>src\<close> as fits.\<close>

definition copy :: "buffer \<Rightarrow> buffer \<Rightarrow> nat \<Rightarrow> buffer" where
  "copy src target targetStart =
     take targetStart target @ take (length target - targetStart) src
       @ drop (targetStart + length src) target"

text \<open>
  \<open>b[i]\<close> as an operand of \<open>^\<close>: an index out of range reads \<open>undefined\<close>, which
  the operator converts to 0.
\<close>

definition byte_at :: "buffer \<Rightarrow> nat \<Rightarrow> byte" where
  "byte_at b i = (if i < length b then b ! i else 0)"

text \<open>\<open>b[i] = v\<close> on a typed array: a store out of range is ignored.\<close>

definition set_byte :: "buffer \<Rightarrow> nat \<Rightarrow> byte \<Rightarrow> buffer" where
  "set_byte b i v = (if i < length b then b[i := v] else b)"

section \<open>The User-Password transform (attribute.js)\<close>

text \<open>
  \<open>crypto.createHash('md5')\<close> belongs to Node.js, not to this repository: the digest
  function is the parameter \<open>H\<close> of every definition that hashes. The shared secret is
  given by the bytes \<open>hash.update(secret)\<close> feeds to the hash.
\<close>

definition md5 :: "(buffer \<Rightarrow> buffer) \<Rightarrow> buffer \<Rightarrow> buffer \<Rightarrow> buffer" where
  "md5 H secret chunk = H (secret @ chunk)"

text \<open>\<open>for (let j = 0; j < 16; ++j) d[i + j] = s[i + j] ^ b[j];\<close>\<close>

definition xorBlock :: "nat \<Rightarrow> buffer \<Rightarrow> buffer \<Rightarrow> buffer \<Rightarrow> buffer" where
  "xorBlock i d s b =
     fold (\<lambda>j d. set_byte d (i + j) (byte_at s (i + j) XOR byte_at b j)) [0..<16] d"

text \<open>\<open>while (n && b[n - 1] === 0) n--;\<close>\<close>

fun stripTrailingNULs_loop :: "buffer \<Rightarrow> nat \<Rightarrow> nat" where
  "stripTrailingNULs_loop b 0 = 0"
| "stripTrailingNULs_loop b (Suc n) =
     (if n < length b \<and> b ! n = 0 then stripTrailingNULs_loop b n else Suc n)"

definition stripTrailingNULs :: "buffer \<Rightarrow> buffer" where
  "stripTrailingNULs b = slice b 0 (stripTrailingNULs_loop b (length b))"

text \<open>
  \<open>buf.toString()\<close> decodes UTF-8. JavaScript strings are modelled as \<open>string\<close>, one
  \<open>char\<close> per code unit below 256. A buffer of ASCII bytes decodes to the same
  characters; what the decoder makes of a buffer with a byte above 127 (multi-byte
  sequences, replacement characters) is the parameter \<open>dec\<close>.
\<close>

definition Buffer_toString :: "(buffer \<Rightarrow> string) \<Rightarrow> buffer \<Rightarrow> string" where
  "Buffer_toString dec b =
     (if list_all (\<lambda>x. x < 0x80) b then map (\<lambda>x. char_of (unat x)) b else dec b)"

text \<open>
  The loop \<open>for (let i = 0; i < n; i += 16)\<close> of \<open>encodeMD5\<close>: the chunk hashed for
  block \<open>i\<close> is the authenticator, or the previous block of the cipher text \<open>c\<close>.
\<close>

function encodeMD5_loop ::
  "(buffer \<Rightarrow> buffer) \<Rightarrow> buffer \<Rightarrow> buffer \<Rightarrow> nat \<Rightarrow> nat \<Rightarrow> buffer \<Rightarrow> buffer \<Rightarrow> buffer" where
  "encodeMD5_loop H secret authenticator n i p c =
     (if i < n then
        (let chunk = (if i = 0 then authenticator else slice c (i - 16) i);
             b = md5 H secret chunk
         in encodeMD5_loop H secret authenticator n (i + 16) p (xorBlock i c p b))
      else c)"
  by pat_completeness auto
termination
  by (relation "measure (\<lambda>(H, secret, authenticator, n, i, p, c). n - i)") auto

declare encodeMD5_loop.simps [simp del]

definition encodeMD5 :: "(buffer \<Rightarrow> buffer) \<Rightarrow> buffer \<Rightarrow> buffer \<Rightarrow> buffer \<Rightarrow> buffer" where
  "encodeMD5 H password secret authenticator =
     (let n = (length password + 15) AND 0xf0;
          p = copy password (Buffer_alloc n) 0;
          c = Buffer_alloc n
      in encodeMD5_loop H secret authenticator n 0 p c)"

function decodeMD5_loop ::
  "(buffer \<Rightarrow> buffer) \<Rightarrow> buffer \<Rightarrow> buffer \<Rightarrow> nat \<Rightarrow> nat \<Rightarrow> buffer \<Rightarrow> buffer \<Rightarrow> buffer" where
  "decodeMD5_loop H secret authenticator n i p c =
     (if i < n then
        (let chunk = (if i = 0 then authenticator else slice c (i - 16) i);
             b = md5 H secret chunk
         in decodeMD5_loop H secret authenticator n (i + 16) (xorBlock i p c b) c)
      else p)"
  by pat_completeness auto
termination
  by (relation "measure (\<lambda>(H, secret, authenticator, n, i, p, c). n - i)") auto

declare decodeMD5_loop.simps [simp del]

text \<open>
  \<open>decodeMD5(cipher, secret, authenticator)\<close>. The client parses responses without a
  secret (\<open>RadiusPacket.fromWire(msg)\<close>): the secret is then \<open>undefined\<close>
  (\<open>None\<close>), and the first \<open>hash.update(secret)\<close> throws.
\<close>

definition decodeMD5 ::
  "(buffer \<Rightarrow> buffer) \<Rightarrow> (buffer \<Rightarrow> string) \<Rightarrow> buffer \<Rightarrow> buffer option \<Rightarrow> buffer
     \<Rightarrow> error + string" where
  "decodeMD5 H dec cipher secret authenticator =
     (let n = length cipher in
      if n mod 16 \<noteq> 0 \<or> n > 128 then Inl (Error ''illegal encrypted password length'')
      else
        (let p = Buffer_alloc n;
             c = cipher
         in case secret of
              None \<Rightarrow>
                if 0 < n then Inl (TypeError ''the data argument must be a string or a buffer'')
                else Inr (Buffer_toString dec (stripTrailingNULs p))
            | Some s \<Rightarrow>
                Inr (Buffer_toString dec
                      (stripTrailingNULs (decodeMD5_loop H s authenticator n 0 p c)))))"

section \<open>JavaScript strings and numbers\<close>

text \<open>
  A JavaScript number is a double: not-a-number, an infinity, or a finite value, which
  is modelled by the real number it denotes (the two zeros are one value here; every
  comparison and conversion below treats them alike).
\<close>

datatype jsnum = NaN | Num real | PosInfinity | NegInfinity

text \<open>\<open>x >= lo && x <= hi\<close> on numbers: false for \<open>NaN\<close>.\<close>

fun num_between :: "real \<Rightarrow> real \<Rightarrow> jsnum \<Rightarrow> bool" where
  "num_between lo hi (Num x) = (lo \<le> x \<and> x \<le> hi)"
| "num_between lo hi NaN = False"
| "num_between lo hi PosInfinity = False"
| "num_between lo hi NegInfinity = False"

text \<open>\<open>Number.isInteger\<close>.\<close>

fun Number_isInteger :: "jsnum \<Rightarrow> bool" where
  "Number_isInteger (Num x) = (of_int \<lfloor>x\<rfloor> = x)"
| "Number_isInteger NaN = False"
| "Number_isInteger PosInfinity = False"
| "Number_isInteger NegInfinity = False"

text \<open>
  The byte a typed array stores for a number (\<open>Buffer.from(array)\<close>): the number is
  truncated towards zero and taken modulo 256; \<open>NaN\<close> and the infinities store 0.
\<close>

fun ToUint8 :: "jsnum \<Rightarrow> byte" where
  "ToUint8 (Num x) = (if x < 0 then word_of_int (- \<lfloor>- x\<rfloor>) else word_of_int \<lfloor>x\<rfloor>)"
| "ToUint8 NaN = 0"
| "ToUint8 PosInfinity = 0"
| "ToUint8 NegInfinity = 0"

text \<open>White space as \<open>trim\<close> and the conversion to a number see it, among the code
  units below 256: TAB, LF, VT, FF, CR, SP and NBSP.\<close>

definition is_space :: "char \<Rightarrow> bool" where
  "is_space c = (of_char c \<in> {9, 10, 11, 12, 13, 32, 160 :: nat})"

definition trim :: "string \<Rightarrow> string" where
  "trim s = rev (dropWhile is_space (rev (dropWhile is_space s)))"

text \<open>\<open>s.split(/\./)\<close>: the segments between the dots; the empty string has one
  (empty) segment.\<close>

fun split_dot_acc :: "string \<Rightarrow> string \<Rightarrow> string list" where
  "split_dot_acc acc [] = [rev acc]"
| "split_dot_acc acc (c # cs) =
     (if c = CHR ''.'' then rev acc # split_dot_acc [] cs else split_dot_acc (c # acc) cs)"

definition split_dot :: "string \<Rightarrow> string list" where
  "split_dot s = split_dot_acc [] s"

definition is_digit :: "char \<Rightarrow> bool" where
  "is_digit c = (48 \<le> (of_char c :: nat) \<and> (of_char c :: nat) \<le> 57)"

definition decimal :: "string \<Rightarrow> nat" where
  "decimal s = foldl (\<lambda>n c. 10 * n + (of_char c - 48)) 0 s"

text \<open>
  \<open>Number(s)\<close> for a string: white space is trimmed; the empty string is 0; a string
  of at most 15 decimal digits is the integer it spells (exactly representable). Every
  other literal (signs, exponents, hexadecimal, \<open>Infinity\<close>, rounding of long literals,
  and whatever is not a number) is left to the parameter \<open>lit\<close>.
\<close>

definition Number_of_string :: "(string \<Rightarrow> jsnum) \<Rightarrow> string \<Rightarrow> jsnum" where
  "Number_of_string lit s =
     (let t = trim s in
      if t = [] then Num 0
      else if list_all is_digit t \<and> length t \<le> 15 then Num (of_nat (decimal t))
      else lit t)"

text \<open>The decimal spelling of an integer in a template string (\<open>`${id}`\<close>), exact
  below \<open>10\<^sup>2\<^sup>1\<close> in absolute value.\<close>

definition digit_char :: "nat \<Rightarrow> char" where
  "digit_char d = char_of (d + 48)"

function decimal_digits :: "nat \<Rightarrow> string \<Rightarrow> string" where
  "decimal_digits n acc =
     (if n < 10 then digit_char n # acc
      else decimal_digits (n div 10) (digit_char (n mod 10) # acc))"
  by pat_completeness auto
termination
  by (relation "measure (\<lambda>(n, acc). n)") auto

declare decimal_digits.simps [simp del]

definition Number_toString :: "int \<Rightarrow> string" where
  "Number_toString i =
     (if i < 0 then CHR ''-'' # decimal_digits (nat (- i)) [] else decimal_digits (nat i) [])"

text \<open>\<open>toLowerCase\<close> and \<open>toUpperCase\<close> on code units below 256. (Upper case is only
  applied to the ASCII names of the code table.)\<close>

definition toLowerCase :: "string \<Rightarrow> string" where
  "toLowerCase s =
     map (\<lambda>c. let n = (of_char c :: nat) in
               if (65 \<le> n \<and> n \<le> 90) \<or> (192 \<le> n \<and> n \<le> 222 \<and> n \<noteq> 215)
               then char_of (n + 32) else c) s"

definition toUpperCase :: "string \<Rightarrow> string" where
  "toUpperCase s =
     map (\<lambda>c. let n = (of_char c :: nat) in
               if 97 \<le> n \<and> n \<le> 122 then char_of (n - 32) else c) s"

text \<open>\<open>s.replace(a, b)\<close> with a string pattern of one character: the first
  occurrence only.\<close>

fun replace_first :: "char \<Rightarrow> char \<Rightarrow> string \<Rightarrow> string" where
  "replace_first a b [] = []"
| "replace_first a b (c # cs) = (if c = a then b # cs else c # replace_first a b cs)"

text \<open>\<open>Buffer.from(s, 'utf-8')\<close> for a string of code units below 256.\<close>

definition utf8_encode :: "string \<Rightarrow> buffer" where
  "utf8_encode s =
     concat (map (\<lambda>c. let n = (of_char c :: nat) in
                        if n < 128 then [of_nat n]
                        else [of_nat (192 + n div 64), of_nat (128 + n mod 64)]) s)"

text \<open>The functions of the platform the code calls: the MD5 digest, the UTF-8 decoder
  on non-ASCII input, and the number literals beyond plain digits.\<close>

record node =
  digest :: "buffer \<Rightarrow> buffer"
  utf8_decode :: "buffer \<Rightarrow> string"
  literal :: "string \<Rightarrow> jsnum"

section \<open>Codes (code.js)\<close>

definition codeTable :: "(nat \<times> string) list" where
  "codeTable =
     [(1, ''Access-Request''), (2, ''Access-Accept''), (3, ''Access-Reject''),
      (4, ''Accounting-Request''), (5, ''Accounting-Response''), (11, ''Access-Challenge''),
      (12, ''Status-Server''), (13, ''Status-Client''),
      (40, ''Disconnect-Request''), (41, ''Disconnect-ACK''), (42, ''Disconnect-NAK''),
      (43, ''CoA-Request''), (44, ''CoA-ACK''), (45, ''CoA-NAK'')]"

text \<open>A \<open>Code\<close> object is frozen and holds its number; there is one per table row, so
  two codes are the same object exactly when their numbers agree.\<close>

datatype Code = Code (valueOf: nat)

text \<open>
  The static properties the loop at the end of code.js defines on the class: for each
  row the property named by the number, and the property named
  \<open>name.toUpperCase().replace('-', '_')\<close>.
\<close>

definition Code_properties :: "(string \<times> Code) list" where
  "Code_properties =
     concat (map (\<lambda>(code, name).
                    [(Number_toString (int code), Code code),
                     (replace_first CHR ''-'' CHR ''_'' (toUpperCase name), Code code)])
                 codeTable)"

text \<open>\<open>Code[k]\<close> and \<open>Code.K\<close>: \<open>None\<close> is \<open>undefined\<close>.\<close>

definition Code_get :: "string \<Rightarrow> Code option" where
  "Code_get k = map_of Code_properties k"

definition Code_toString :: "Code \<Rightarrow> string option" where
  "Code_toString c = map_of codeTable (valueOf c)"

section \<open>Attribute values (avalue.js)\<close>

text \<open>
  The classes of attribute values. \<open>ABuffer\<close> is the base of all the others;
  \<open>AByte\<close>, \<open>AShort\<close>, \<open>AInteger\<close> and \<open>ADate\<close> are the numeric classes
  (\<open>ANumeric\<close>), and with \<open>AInet4\<close> the classes of a fixed length (\<open>AFixed\<close>).
\<close>

datatype AValue_class = ABuffer | AString | AByte | AShort | AInteger | AInet4 | ADate | AVSA

definition is_ANumeric :: "AValue_class \<Rightarrow> bool" where
  "is_ANumeric t = (t = AByte \<or> t = AShort \<or> t = AInteger \<or> t = ADate)"

text \<open>The static \<open>length\<close> of the classes of a fixed length.\<close>

fun static_length :: "AValue_class \<Rightarrow> nat" where
  "static_length AByte = 1"
| "static_length AShort = 2"
| "static_length AInteger = 4"
| "static_length ADate = 4"
| "static_length AInet4 = 4"
| "static_length t = 0"

text \<open>
  No class defines the static properties \<open>minimumLength\<close> and \<open>maximumLength\<close> that
  \<open>Attribute.fromWire\<close> reads: both are \<open>undefined\<close> for every class, and a
  comparison with \<open>undefined\<close> is false.
\<close>

definition minimumLength :: "AValue_class \<Rightarrow> nat option" where
  "minimumLength t = None"

definition maximumLength :: "AValue_class \<Rightarrow> nat option" where
  "maximumLength t = None"

text \<open>
  An attribute value: an object of one of the classes, holding a buffer or (the numeric
  classes) a number. Its \<open>value\<close> property is \<open>av_value\<close>.
\<close>

datatype native = VUndefined | VBuffer buffer | VString string | VNumber jsnum | VArray "jsnum list"

datatype AValue = BufferValue AValue_class buffer | NumericValue AValue_class nat

fun av_class :: "AValue \<Rightarrow> AValue_class" where
  "av_class (BufferValue t b) = t"
| "av_class (NumericValue t n) = t"

fun av_value :: "AValue \<Rightarrow> native" where
  "av_value (BufferValue t b) = VBuffer b"
| "av_value (NumericValue t n) = VNumber (Num (of_nat n))"

text \<open>\<open>bufferCheck(buf, min, max)\<close>; \<open>AFixed\<close> overrides the bounds by the static
  length, the other classes take the defaults 1 and 253.\<close>

definition bufferCheck :: "AValue_class \<Rightarrow> native \<Rightarrow> error + buffer" where
  "bufferCheck t v =
     (let (lo, hi) = (if is_ANumeric t \<or> t = AInet4 then (static_length t, static_length t)
                      else (1, 253))
      in case v of
           VBuffer buf \<Rightarrow>
             if length buf < lo \<or> length buf > hi
             then Inl (RangeError ''invalid buffer length'')
             else Inr buf
         | _ \<Rightarrow> Inl (TypeError ''invalid type''))"

text \<open>\<open>buf.readUIntBE(offset, n)\<close>, for a range inside the buffer (every call of the
  code is behind a check of the length).\<close>

definition readUIntBE :: "buffer \<Rightarrow> nat \<Rightarrow> nat \<Rightarrow> nat" where
  "readUIntBE buf offset n = foldl (\<lambda>acc x. 256 * acc + unat x) 0 (slice buf offset (offset + n))"

text \<open>The \<open>n\<close> bytes of a number, big-endian.\<close>

definition be_bytes :: "nat \<Rightarrow> nat \<Rightarrow> buffer" where
  "be_bytes n v = map (\<lambda>i. of_nat (v div 256 ^ (n - 1 - i))) [0..<n]"

text \<open>\<open>ANumeric.fromValue\<close>, \<open>ANumeric.fromBuffer\<close>, \<open>ABuffer.fromBuffer\<close>.\<close>

definition ANumeric_fromValue :: "AValue_class \<Rightarrow> native \<Rightarrow> error + AValue" where
  "ANumeric_fromValue t v =
     (case v of
        VNumber x \<Rightarrow>
          if \<not> Number_isInteger x
          then Inl (RangeError ''non-integer parameter passed for attribute'')
          else (case x of
                  Num r \<Rightarrow>
                    if r < 0 \<or> r \<ge> 2 ^ (8 * static_length t)
                    then Inl (RangeError ''integer paramer out of range'')
                    else Inr (NumericValue t (nat \<lfloor>r\<rfloor>))
                | _ \<Rightarrow> Inl (RangeError ''non-integer parameter passed for attribute''))
      | _ \<Rightarrow> Inl (TypeError ''non-numeric parameter passed for attribute''))"

definition fromBuffer :: "AValue_class \<Rightarrow> native \<Rightarrow> error + AValue" where
  "fromBuffer t v =
     (case bufferCheck t v of
        Inl e \<Rightarrow> Inl e
      | Inr buf \<Rightarrow>
          if is_ANumeric t
          then ANumeric_fromValue t (VNumber (Num (of_nat (readUIntBE buf 0 (static_length t)))))
          else Inr (BufferValue t buf))"

text \<open>\<open>AInet4.fromValue\<close>: a string is split at the dots and each segment converted
  by \<open>Number\<close>; then four numbers in 0..255 are required.\<close>

definition AInet4_fromValue :: "node \<Rightarrow> native \<Rightarrow> error + AValue" where
  "AInet4_fromValue nd v0 =
     (let v = (case v0 of
                 VString s \<Rightarrow> VArray (map (Number_of_string (literal nd)) (split_dot (trim s)))
               | _ \<Rightarrow> v0)
      in case v of
           VUndefined \<Rightarrow> Inl (TypeError ''cannot read properties of undefined'')
         | VNumber x \<Rightarrow> Inl (TypeError ''illegal IP address string'')
         | VString s \<Rightarrow> Inl (TypeError ''illegal IP address string'')
         | VBuffer b \<Rightarrow>
             if length b \<noteq> 4 then Inl (TypeError ''illegal IP address string'')
             else fromBuffer AInet4 (VBuffer b)
         | VArray xs \<Rightarrow>
             if length xs \<noteq> 4 \<or> \<not> list_all (num_between 0 255) xs
             then Inl (TypeError ''illegal IP address string'')
             else fromBuffer AInet4 (VBuffer (map ToUint8 xs)))"

text \<open>\<open>type.fromValue(value)\<close> by class.\<close>

definition fromValue :: "node \<Rightarrow> AValue_class \<Rightarrow> native \<Rightarrow> error + AValue" where
  "fromValue nd t v =
     (if is_ANumeric t then ANumeric_fromValue t v
      else if t = AInet4 then AInet4_fromValue nd v
      else if t = AString then
        (case v of
           VString s \<Rightarrow> fromBuffer t (VBuffer (utf8_encode s))
         | VBuffer b \<Rightarrow> fromBuffer t v
         | _ \<Rightarrow> Inl (TypeError ''value must be a string or a buffer''))
      else fromBuffer t v)"

text \<open>\<open>buf.writeUIntBE(value, offset, n)\<close> (and \<open>writeUInt8\<close>, \<open>writeUInt16BE\<close>,
  \<open>writeUInt32BE\<close> for \<open>n\<close> 1, 2, 4): throws when the value or the range is out of
  bounds, returns the offset after the bytes written.\<close>

definition writeUIntBE :: "buffer \<Rightarrow> int \<Rightarrow> nat \<Rightarrow> nat \<Rightarrow> error + buffer \<times> nat" where
  "writeUIntBE buf v offset n =
     (if v < 0 \<or> v \<ge> 2 ^ (8 * n) then Inl (RangeError ''value is out of range'')
      else if offset + n > length buf then Inl (RangeError ''offset is out of range'')
      else Inr (copy (be_bytes n (nat v)) buf offset, offset + n))"

text \<open>\<open>toBuffer()\<close>: a copy of the buffer, or the number written big-endian into a
  buffer of the static length.\<close>

fun toBuffer :: "AValue \<Rightarrow> error + buffer" where
  "toBuffer (BufferValue t b) = Inr b"
| "toBuffer (NumericValue t v) =
     (case writeUIntBE (Buffer_alloc (static_length t)) (int v) 0 (static_length t) of
        Inl e \<Rightarrow> Inl e
      | Inr (buf, off) \<Rightarrow> Inr buf)"

section \<open>Vendors and dictionary entries (vendor.js, dictent.js)\<close>

text \<open>
  Vendors and dictionary entries are frozen objects that the code compares by identity
  (\<open>===\<close>). Each carries the address it was allocated at (\<open>vendor_ref\<close>,
  \<open>ent_ref\<close>); two objects are identical when the addresses agree.
\<close>

record Vendor =
  vendor_ref :: nat
  vendor_name :: string
  vendor_id :: int
  typeSize :: nat
  lengthSize :: nat

text \<open>
  The constructor. The \<open>format=T,L\<close> fields among the extra arguments are given as the
  list of the pairs \<open>(T, L)\<close> they spell, in order (the last one decides).
\<close>

definition Vendor_new :: "nat \<Rightarrow> string \<Rightarrow> int \<Rightarrow> (nat \<times> nat) list \<Rightarrow> error + Vendor" where
  "Vendor_new ref name i formats =
     (if i < 0 \<or> i \<ge> 2 ^ 32 then Inl (RangeError ''Vendor id must be a 32 bit unsigned integer'')
      else
        (let (ts, ls) = fold (\<lambda>f acc. f) formats (1, 1) in
         if ts \<notin> {1, 2, 4} then Inl (Error ''illegal VSA type size specified'')
         else if ls \<notin> {0, 1, 2} then Inl (Error ''illegal VSA type length specified'')
         else Inr \<lparr>vendor_ref = ref, vendor_name = name, vendor_id = i,
                    typeSize = ts, lengthSize = ls\<rparr>))"

record DictionaryEntry =
  ent_ref :: nat
  ent_name :: string
  ent_id :: int
  sub_id :: "int option"
  ent_vendor :: "Vendor option"
  ent_type :: AValue_class
  sub_type :: "AValue_class option"
  flags :: "(string \<times> int) list"

definition typeMap :: "(string \<times> AValue_class) list" where
  "typeMap =
     [(''string'', AString), (''octets'', ABuffer), (''uint8'', AByte), (''byte'', AByte),
      (''uint16'', AShort), (''short'', AShort), (''integer'', AInteger),
      (''uint64'', ABuffer), (''integer64'', ABuffer), (''signed'', AInteger),
      (''ipaddr'', AInet4), (''ipv4prefix'', ABuffer), (''ipv6addr'', ABuffer),
      (''ipv6prefix'', ABuffer), (''ifid'', ABuffer), (''date'', ADate), (''tlv'', ABuffer),
      (''combo-ip'', ABuffer), (''abinary'', ABuffer), (''ether'', ABuffer),
      (''struct'', ABuffer), (''vsa'', AVSA)]"

text \<open>\<open>type.match(/^octets\[\d+\]$/)\<close>.\<close>

definition is_octets_n :: "string \<Rightarrow> bool" where
  "is_octets_n t =
     (take 7 t = ''octets['' \<and> 9 \<le> length t \<and> last t = CHR '']'' \<and>
      list_all is_digit (butlast (drop 7 t)))"

text \<open>
  The constructor, for an id that is an integer. The flags string of a dictionary line
  is given as the object the constructor builds from it (flag names and their numbers);
  the enumeration table \<open>values\<close> is left out: no property below reads it.
\<close>

definition DictionaryEntry_new ::
  "nat \<Rightarrow> Vendor option \<Rightarrow> string \<Rightarrow> int \<Rightarrow> string \<Rightarrow> (string \<times> int) list \<Rightarrow> error + DictionaryEntry" where
  "DictionaryEntry_new ref vendor name i type0 fl =
     (let type1 = toLowerCase type0;
          type2 = (if is_octets_n type1 then ''octets'' else type1)
      in case map_of typeMap type2 of
           None \<Rightarrow> Inl (ParseError ''unknown dictionary type entry'')
         | Some t \<Rightarrow>
             (case vendor of
                None \<Rightarrow>
                  Inr \<lparr>ent_ref = ref, ent_name = name, ent_id = i, sub_id = None,
                       ent_vendor = None, ent_type = t, sub_type = None, flags = fl\<rparr>
              | Some v \<Rightarrow>
                  Inr \<lparr>ent_ref = ref, ent_name = name, ent_id = 26, sub_id = Some i,
                       ent_vendor = Some v, ent_type = AVSA, sub_type = Some t, flags = fl\<rparr>))"

definition isVSA :: "DictionaryEntry \<Rightarrow> bool" where
  "isVSA e = (ent_type e = AVSA)"

definition realType :: "DictionaryEntry \<Rightarrow> AValue_class" where
  "realType e = (case sub_type e of Some t \<Rightarrow> t | None \<Rightarrow> ent_type e)"

text \<open>\<open>dict.flags.encrypt\<close>: \<open>None\<close> is \<open>undefined\<close>.\<close>

definition flags_encrypt :: "DictionaryEntry \<Rightarrow> int option" where
  "flags_encrypt e = map_of (flags e) ''encrypt''"

section \<open>The dictionary (dictionary.js)\<close>

text \<open>
  The global state of the module: the maps \<open>dict\<close> (keyed by attribute number and by
  lower-case name), \<open>vendors\<close> (keyed by enterprise number and by lower-case name) and
  \<open>vsas\<close> (per vendor number, a map from sub-id to entry), and the address the next
  object will be allocated at. A key of a JavaScript \<open>Map\<close> is a number or a string.
\<close>

datatype key = KNum int | KStr string

record Dictionary =
  dict :: "key \<Rightarrow> DictionaryEntry option"
  vendors :: "key \<Rightarrow> Vendor option"
  vsas :: "int \<Rightarrow> (int \<Rightarrow> DictionaryEntry option) option"
  next_ref :: nat

definition empty_Dictionary :: Dictionary where
  "empty_Dictionary =
     \<lparr>dict = (\<lambda>k. None), vendors = (\<lambda>k. None), vsas = (\<lambda>i. None), next_ref = 0\<rparr>"

text \<open>
  The functions below return the new state with their result. The state an exception
  leaves behind is not kept: \<open>Inl\<close> carries the exception only.
\<close>

definition addAttributeSpec ::
  "Dictionary \<Rightarrow> Vendor option \<Rightarrow> string \<Rightarrow> int \<Rightarrow> string \<Rightarrow> (string \<times> int) list
     \<Rightarrow> error + Dictionary" where
  "addAttributeSpec D vendor name i type0 fl =
     (case DictionaryEntry_new (next_ref D) vendor name i type0 fl of
        Inl e \<Rightarrow> Inl e
      | Inr ent \<Rightarrow>
          (let D1 = D\<lparr>next_ref := Suc (next_ref D)\<rparr>;
               D2 = (case vendor of
                       Some v \<Rightarrow>
                         (case vsas D1 (vendor_id v) of
                            Some m \<Rightarrow> D1\<lparr>vsas := (vsas D1)(vendor_id v \<mapsto> m(i \<mapsto> ent))\<rparr>
                          | None \<Rightarrow> D1)
                     | None \<Rightarrow> D1\<lparr>dict := (dict D1)(KNum (ent_id ent) \<mapsto> ent)\<rparr>)
           in Inr (D2\<lparr>dict := (dict D2)(KStr (toLowerCase name) \<mapsto> ent)\<rparr>)))"

definition addVendor :: "Dictionary \<Rightarrow> string \<Rightarrow> int \<Rightarrow> (nat \<times> nat) list \<Rightarrow> error + Dictionary" where
  "addVendor D name i formats =
     (if vendors D (KNum i) \<noteq> None then Inl (ParseError ''duplicate VENDOR entry'')
      else
        (let D1 = D\<lparr>vsas := (vsas D)(i \<mapsto> (\<lambda>s. None))\<rparr> in
         case Vendor_new (next_ref D1) name i formats of
           Inl e \<Rightarrow> Inl e
         | Inr v \<Rightarrow>
             Inr (D1\<lparr>next_ref := Suc (next_ref D1),
                      vendors := (vendors D1)(KNum i \<mapsto> v, KStr (toLowerCase name) \<mapsto> v)\<rparr>)))"

text \<open>\<open>Dictionary.vendor(id)\<close> for an integer: what \<open>vendors.get(id)\<close> returns in the
  end (\<open>None\<close> is \<open>undefined\<close>).\<close>

definition vendor :: "Dictionary \<Rightarrow> int \<Rightarrow> error + Vendor option \<times> Dictionary" where
  "vendor D i =
     (case (if vendors D (KNum i) = None then addVendor D (''Vendor'' @ Number_toString i) i []
            else Inr D) of
        Inl e \<Rightarrow> Inl e
      | Inr D' \<Rightarrow> Inr (vendors D' (KNum i), D'))"

text \<open>\<open>Dictionary.vsa(vendor_id, sub_id)\<close> for two integers.\<close>

definition vsa :: "Dictionary \<Rightarrow> int \<Rightarrow> int \<Rightarrow> error + DictionaryEntry option \<times> Dictionary" where
  "vsa D vendor_id' sub_id' =
     (case vendor D vendor_id' of
        Inl e \<Rightarrow> Inl e
      | Inr (None, D1) \<Rightarrow> Inl (TypeError ''cannot read properties of undefined'')
      | Inr (Some v, D1) \<Rightarrow>
          (case vsas D1 (vendor_id v) of
             None \<Rightarrow> Inl (TypeError ''cannot read properties of undefined'')
           | Some m \<Rightarrow>
               (case (if m sub_id' = None
                      then addAttributeSpec D1 (Some v)
                             (vendor_name v @ ''-Unknown-Attribute-'' @ Number_toString sub_id')
                             sub_id' ''octets'' []
                      else Inr D1) of
                  Inl e \<Rightarrow> Inl e
                | Inr D2 \<Rightarrow>
                    Inr (case vsas D2 (vendor_id v) of Some m' \<Rightarrow> m' sub_id' | None \<Rightarrow> None,
                         D2))))"

text \<open>\<open>Dictionary.get(id)\<close> for a string or an integer.\<close>

definition get :: "Dictionary \<Rightarrow> key \<Rightarrow> error + DictionaryEntry option \<times> Dictionary" where
  "get D k =
     (case k of
        KStr name \<Rightarrow>
          (let str = toLowerCase name in
           if dict D (KStr str) \<noteq> None then Inr (dict D (KStr str), D)
           else Inl (RangeError ''unrecognised attribute name''))
      | KNum i \<Rightarrow>
          if i < 1 \<or> i > 255 then Inl (RangeError ''dictionary lookup value out of range'')
          else
            (case (if dict D (KNum i) = None
                   then addAttributeSpec D None (''Unknown-Attribute-'' @ Number_toString i) i
                          ''octets'' []
                   else Inr D) of
               Inl e \<Rightarrow> Inl e
             | Inr D' \<Rightarrow> Inr (dict D' (KNum i), D')))"

section \<open>Attributes (attribute.js)\<close>

record Attribute =
  attr_dict :: DictionaryEntry
  avalue :: AValue

text \<open>The first argument of the constructor: a name or number, or an entry.\<close>

datatype attr_id = IdKey key | IdEntry DictionaryEntry

definition Attribute_new ::
  "node \<Rightarrow> Dictionary \<Rightarrow> attr_id \<Rightarrow> native \<Rightarrow> error + Attribute \<times> Dictionary" where
  "Attribute_new nd D i v =
     (case (case i of IdKey k \<Rightarrow> get D k | IdEntry e \<Rightarrow> Inr (Some e, D)) of
        Inl e \<Rightarrow> Inl e
      | Inr (None, D') \<Rightarrow> Inl (TypeError ''cannot read properties of undefined'')
      | Inr (Some d, D') \<Rightarrow>
          (case (case v of VBuffer b \<Rightarrow> fromBuffer (realType d) v
                 | _ \<Rightarrow> fromValue nd (realType d) v) of
             Inl e \<Rightarrow> Inl e
           | Inr av \<Rightarrow> Inr (\<lparr>attr_dict = d, avalue = av\<rparr>, D')))"

definition attr_name :: "Attribute \<Rightarrow> string" where
  "attr_name a = ent_name (attr_dict a)"

definition attr_value :: "Attribute \<Rightarrow> native" where
  "attr_value a = av_value (avalue a)"

text \<open>
  \<open>toWire(buf, offset, secret, authenticator)\<close>: the buffer after the writes and the
  offset after the attribute.
\<close>

definition Attribute_toWire ::
  "node \<Rightarrow> Attribute \<Rightarrow> buffer \<Rightarrow> nat \<Rightarrow> buffer \<Rightarrow> buffer \<Rightarrow> error + buffer \<times> nat" where
  "Attribute_toWire nd a buf offset secret authenticator =
     (case toBuffer (avalue a) of
        Inl e \<Rightarrow> Inl e
      | Inr abuf0 \<Rightarrow>
          (let d = attr_dict a;
               abuf = (if flags_encrypt d = Some 1
                       then encodeMD5 (digest nd) abuf0 secret authenticator else abuf0);
               len = 2 + length abuf
                     + (case ent_vendor d of Some v \<Rightarrow> 4 + typeSize v + lengthSize v | None \<Rightarrow> 0)
           in if offset + len \<ge> length buf
              then Inl (RangeError ''attributes will not fit in buffer'')
              else
                (case writeUIntBE buf (ent_id d) offset 1 of
                   Inl e \<Rightarrow> Inl e
                 | Inr (b1, o1) \<Rightarrow>
                (case writeUIntBE b1 (int len) o1 1 of
                   Inl e \<Rightarrow> Inl e
                 | Inr (b2, o2) \<Rightarrow>
                (case (case ent_vendor d of
                         None \<Rightarrow> Inr (b2, o2)
                       | Some v \<Rightarrow>
                           (case writeUIntBE b2 (vendor_id v) o2 4 of
                              Inl e \<Rightarrow> Inl e
                            | Inr (b3, o3) \<Rightarrow>
                           (case (case sub_id d of
                                    None \<Rightarrow> Inl (TypeError ''value must be a number'')
                                  | Some s \<Rightarrow> writeUIntBE b3 s o3 (typeSize v)) of
                              Inl e \<Rightarrow> Inl e
                            | Inr (b4, o4) \<Rightarrow>
                                if lengthSize v \<noteq> 0
                                then writeUIntBE b4 (int (min (length abuf) 255)) o4 (lengthSize v)
                                else Inr (b4, o4)))) of
                   Inl e \<Rightarrow> Inl e
                 | Inr (b5, o5) \<Rightarrow> Inr (copy abuf b5 o5, o5 + length abuf))))))"

text \<open>The part of \<open>Attribute.fromWire\<close> for an entry of the class \<open>AVSA\<close>: the entry
  of the sub-attribute, its data, and the buffer after \<open>buffer[1] = length\<close>.\<close>

definition fromWire_VSA ::
  "Dictionary \<Rightarrow> DictionaryEntry \<Rightarrow> buffer \<Rightarrow> buffer
     \<Rightarrow> error + DictionaryEntry option \<times> buffer \<times> buffer \<times> Dictionary" where
  "fromWire_VSA D d buffer data =
     (if length data < 4 then Inl (RangeError ''VSA buffer too short to encode vendor'')
      else
        (let vendor_id' = readUIntBE data 0 4 in
         case vendor D (int vendor_id') of
           Inl e \<Rightarrow> Inl e
         | Inr (None, D1) \<Rightarrow> Inr (Some d, data, buffer, D1)
         | Inr (Some v, D1) \<Rightarrow>
             (let ts = typeSize v; ls = lengthSize v; offset = 4 in
              if length data < offset + ts + ls
              then Inl (RangeError ''VSA buffer too short to encode id and length'')
              else
                (let sub_id' = readUIntBE data offset ts;
                     offset1 = offset + ts;
                     sub_length = (if ls \<noteq> 0 then readUIntBE data offset1 ls
                                   else length buffer - offset1);
                     offset2 = offset1 + ls
                 in case vsa D1 (int vendor_id') (int sub_id') of
                      Inl e \<Rightarrow> Inl e
                    | Inr (d', D2) \<Rightarrow>
                        (let len = offset2 + sub_length
                         in Inr (d', slice data offset2 len,
                                 set_byte buffer 1 (of_nat len), D2))))))"

text \<open>\<open>x < undefined\<close> and \<open>x > undefined\<close> are false.\<close>

definition less_opt :: "nat \<Rightarrow> nat option \<Rightarrow> bool" where
  "less_opt x m = (case m of None \<Rightarrow> False | Some y \<Rightarrow> x < y)"

definition greater_opt :: "nat \<Rightarrow> nat option \<Rightarrow> bool" where
  "greater_opt x m = (case m of None \<Rightarrow> False | Some y \<Rightarrow> x > y)"

text \<open>\<open>Attribute.fromWire(buffer, secret, authenticator)\<close>: the attribute, the buffer
  as the call leaves it, and the dictionary.\<close>

definition Attribute_fromWire ::
  "node \<Rightarrow> Dictionary \<Rightarrow> buffer \<Rightarrow> buffer option \<Rightarrow> buffer
     \<Rightarrow> error + Attribute \<times> buffer \<times> Dictionary" where
  "Attribute_fromWire nd D buffer secret authenticator =
     (if length buffer < 2 then Inl (RangeError ''invalid length for attribute buffer'')
      else if length buffer \<noteq> unat (buffer ! 1)
      then Inl (RangeError ''length mismatch in attribute buffer'')
      else
        (case get D (KNum (uint (buffer ! 0))) of
           Inl e \<Rightarrow> Inl e
         | Inr (None, D1) \<Rightarrow> Inl (TypeError ''cannot read properties of undefined'')
         | Inr (Some d0, D1) \<Rightarrow>
             (case (if isVSA d0 then fromWire_VSA D1 d0 buffer (slice buffer 2 (length buffer))
                    else Inr (Some d0, slice buffer 2 (length buffer), buffer, D1)) of
                Inl e \<Rightarrow> Inl e
              | Inr (None, data, buffer', D2) \<Rightarrow>
                  Inl (TypeError ''cannot read properties of undefined'')
              | Inr (Some d, data, buffer', D2) \<Rightarrow>
                  if less_opt (length data) (minimumLength (realType d))
                  then Inl (RangeError ''attribute value too short for type'')
                  else if greater_opt (length data) (maximumLength (realType d))
                  then Inl (RangeError ''attribute value too long for type'')
                  else
                    (case (case flags_encrypt d of
                             None \<Rightarrow> Inr (VBuffer data)
                           | Some enc \<Rightarrow>
                               if enc = 1
                               then (case decodeMD5 (digest nd) (utf8_decode nd) data secret
                                            authenticator of
                                       Inl e \<Rightarrow> Inl e
                                     | Inr str \<Rightarrow> Inr (VString str))
                               else Inl (Error ''attribute uses unsupported encryption scheme'')) of
                       Inl e \<Rightarrow> Inl e
                     | Inr v \<Rightarrow>
                         (case Attribute_new nd D2 (IdEntry d) v of
                            Inl e \<Rightarrow> Inl e
                          | Inr (a, D3) \<Rightarrow> Inr (a, buffer', D3))))))"

section \<open>Attribute lists (attrlist.js)\<close>

record AttributeList =
  attrs :: "Attribute list"
  readonly :: bool

definition AttributeList_new :: "Attribute list \<Rightarrow> bool \<Rightarrow> AttributeList" where
  "AttributeList_new as ro = \<lparr>attrs = as, readonly = ro\<rparr>"

text \<open>\<open>add(attr)\<close> with an attribute, or \<open>add(id, value)\<close>.\<close>

definition AttributeList_add ::
  "node \<Rightarrow> Dictionary \<Rightarrow> AttributeList \<Rightarrow> Attribute + attr_id \<times> native
     \<Rightarrow> error + AttributeList \<times> Dictionary" where
  "AttributeList_add nd D l x =
     (if readonly l then Inl (Error ''AttributeList is read-only'')
      else
        (case x of
           Inl a \<Rightarrow> Inr (l\<lparr>attrs := attrs l @ [a]\<rparr>, D)
         | Inr (i, v) \<Rightarrow>
             (case Attribute_new nd D i v of
                Inl e \<Rightarrow> Inl e
              | Inr (a, D') \<Rightarrow> Inr (l\<lparr>attrs := attrs l @ [a]\<rparr>, D'))))"

text \<open>\<open>for (const attr of this) offset = attr.toWire(buf, offset, secret, authenticator)\<close>\<close>

fun toWire_loop ::
  "node \<Rightarrow> Attribute list \<Rightarrow> buffer \<Rightarrow> nat \<Rightarrow> buffer \<Rightarrow> buffer \<Rightarrow> error + buffer \<times> nat" where
  "toWire_loop nd [] buf offset secret authenticator = Inr (buf, offset)"
| "toWire_loop nd (a # as) buf offset secret authenticator =
     (case Attribute_toWire nd a buf offset secret authenticator of
        Inl e \<Rightarrow> Inl e
      | Inr (buf', offset') \<Rightarrow> toWire_loop nd as buf' offset' secret authenticator)"

definition AttributeList_toWire ::
  "node \<Rightarrow> AttributeList \<Rightarrow> buffer \<Rightarrow> nat \<Rightarrow> buffer \<Rightarrow> buffer \<Rightarrow> error + buffer \<times> nat" where
  "AttributeList_toWire nd l buf offset secret authenticator =
     toWire_loop nd (attrs l) buf offset secret authenticator"

text \<open>
  The loop of \<open>parseAttributes\<close>:
  \<^verbatim>\<open>while (n < len) { if (len - n > 2) { ...; n += len; } }\<close>
  The loop may run forever, so the function is partial: \<open>None\<close> is a run that never
  returns, \<open>Some (Inl e)\<close> an exception. The slice passed to \<open>Attribute.fromWire\<close>
  shares its memory with \<open>buf\<close>: what the call stores into it is copied back.
\<close>

partial_function (option) parseAttributes_loop ::
  "node \<Rightarrow> buffer option \<Rightarrow> buffer \<Rightarrow> buffer \<Rightarrow> nat \<Rightarrow> Attribute list \<Rightarrow> Dictionary
     \<Rightarrow> (error + Attribute list \<times> buffer \<times> Dictionary) option" where
  "parseAttributes_loop nd secret authenticator buf n as D =
     (if n < length buf then
        (if length buf - n > 2 then
           (case Attribute_fromWire nd D (slice buf n (n + unat (buf ! (n + 1))))
                   secret authenticator of
              Inl e \<Rightarrow> Some (Inl e)
            | Inr (attr, data', D') \<Rightarrow>
                parseAttributes_loop nd secret authenticator (copy data' buf n)
                  (n + unat (buf ! (n + 1))) (as @ [attr]) D')
         else parseAttributes_loop nd secret authenticator buf n as D)
      else Some (Inr (as, buf, D)))"

definition parseAttributes ::
  "node \<Rightarrow> Dictionary \<Rightarrow> buffer \<Rightarrow> nat \<Rightarrow> buffer option \<Rightarrow> buffer
     \<Rightarrow> (error + Attribute list \<times> buffer \<times> Dictionary) option" where
  "parseAttributes nd D buf offset secret authenticator =
     parseAttributes_loop nd secret authenticator buf offset [] D"

definition AttributeList_fromWire ::
  "node \<Rightarrow> Dictionary \<Rightarrow> buffer \<Rightarrow> nat \<Rightarrow> buffer option \<Rightarrow> buffer
     \<Rightarrow> (error + AttributeList \<times> buffer \<times> Dictionary) option" where
  "AttributeList_fromWire nd D buf offset secret authenticator =
     (case parseAttributes nd D buf offset secret authenticator of
        None \<Rightarrow> None
      | Some (Inl e) \<Rightarrow> Some (Inl e)
      | Some (Inr (as, buf', D')) \<Rightarrow> Some (Inr (AttributeList_new as True, buf', D')))"

section \<open>Packets (packet.js)\<close>

record RadiusPacket =
  pkt_code :: Code
  pkt_identifier :: nat
  pkt_authenticator :: buffer
  pkt_attributes :: AttributeList
  frozen :: bool

text \<open>The fourth argument of the constructor: nothing, a list object (kept as it is),
  or an iterable of attributes (added one by one to a new list).\<close>

datatype attrs_arg = NoAttributes | TheList AttributeList | Iterable "Attribute list"

text \<open>
  The constructor. The code is a \<open>Code\<close> object or \<open>undefined\<close> (what
  \<open>Code[n]\<close> gives for a number outside the table, and \<open>Code.from\<close> rejects); the
  identifier is an integer.
\<close>

definition RadiusPacket_new ::
  "Code option \<Rightarrow> int \<Rightarrow> buffer \<Rightarrow> attrs_arg \<Rightarrow> error + RadiusPacket" where
  "RadiusPacket_new code i auth as =
     (case code of
        None \<Rightarrow> Inl (RangeError ''Code lookup for unknown value'')
      | Some c \<Rightarrow>
          if i < 0 \<or> i > 255 then Inl (RangeError ''id must be an 8-bit unsigned integer'')
          else if length auth \<noteq> 16 then Inl (RangeError ''authenticator length incorrect'')
          else Inr \<lparr>pkt_code = c, pkt_identifier = nat i, pkt_authenticator = auth,
                    pkt_attributes = (case as of
                                    NoAttributes \<Rightarrow> AttributeList_new [] False
                                  | TheList l \<Rightarrow> l
                                  | Iterable xs \<Rightarrow> AttributeList_new xs False),
                    frozen = False\<rparr>)"

text \<open>\<open>attr.dict === dict\<close>: the same object.\<close>

definition same_entry :: "DictionaryEntry \<Rightarrow> DictionaryEntry \<Rightarrow> bool" where
  "same_entry a b = (ent_ref a = ent_ref b)"

definition getAll :: "Dictionary \<Rightarrow> RadiusPacket \<Rightarrow> key \<Rightarrow> error + Attribute list \<times> Dictionary" where
  "getAll D p k =
     (case get D k of
        Inl e \<Rightarrow> Inl e
      | Inr (d, D') \<Rightarrow>
          Inr (filter (\<lambda>a. case d of Some d' \<Rightarrow> same_entry (attr_dict a) d' | None \<Rightarrow> False)
                 (attrs (pkt_attributes p)), D'))"

definition RadiusPacket_add ::
  "node \<Rightarrow> Dictionary \<Rightarrow> RadiusPacket \<Rightarrow> Attribute + attr_id \<times> native
     \<Rightarrow> error + RadiusPacket \<times> Dictionary" where
  "RadiusPacket_add nd D p x =
     (case AttributeList_add nd D (pkt_attributes p) x of
        Inl e \<Rightarrow> Inl e
      | Inr (l, D') \<Rightarrow> Inr (p\<lparr>pkt_attributes := l\<rparr>, D'))"

text \<open>\<open>toWire(secret, response)\<close>.\<close>

definition RadiusPacket_toWire :: "node \<Rightarrow> RadiusPacket \<Rightarrow> buffer \<Rightarrow> bool \<Rightarrow> error + buffer" where
  "RadiusPacket_toWire nd p secret response =
     (case writeUIntBE (Buffer_alloc 4096) (int (valueOf (pkt_code p))) 0 1 of
        Inl e \<Rightarrow> Inl e
      | Inr (b1, o1) \<Rightarrow>
     (case writeUIntBE b1 (int (pkt_identifier p)) o1 1 of
        Inl e \<Rightarrow> Inl e
      | Inr (b2, length_offset) \<Rightarrow>
     (case writeUIntBE b2 0 length_offset 2 of
        Inl e \<Rightarrow> Inl e
      | Inr (b3, authen_offset) \<Rightarrow>
     (case AttributeList_toWire nd (pkt_attributes p) (copy (pkt_authenticator p) b3 authen_offset)
             (authen_offset + 16) secret (pkt_authenticator p) of
        Inl e \<Rightarrow> Inl e
      | Inr (b4, len) \<Rightarrow>
     (case writeUIntBE b4 (int len) length_offset 2 of
        Inl e \<Rightarrow> Inl e
      | Inr (b5, o5) \<Rightarrow>
          (let b6 = slice b5 0 len
           in Inr (if response then copy (digest nd (b6 @ secret)) b6 authen_offset
                   else b6)))))))"

text \<open>
  \<open>RadiusPacket.fromWire(buf, secret)\<close>: the packet, the buffer as the call leaves
  it, and the dictionary; or \<open>None\<close> when the attribute parser never returns.
\<close>

definition RadiusPacket_fromWire ::
  "node \<Rightarrow> Dictionary \<Rightarrow> buffer \<Rightarrow> buffer option
     \<Rightarrow> (error + RadiusPacket \<times> buffer \<times> Dictionary) option" where
  "RadiusPacket_fromWire nd D buf secret =
     (if length buf < 20 then Some (Inl (Error ''RADIUS buffer too short''))
      else if length buf < readUIntBE buf 2 2
      then Some (Inl (Error ''RADIUS buffer length mismatch''))
      else
        (let code = Code_get (Number_toString (uint (buf ! 0)));
             i = uint (buf ! 1);
             auth = slice buf 4 20
         in case AttributeList_fromWire nd D buf 20 secret auth of
              None \<Rightarrow> None
            | Some (Inl e) \<Rightarrow> Some (Inl e)
            | Some (Inr (l, buf', D')) \<Rightarrow>
                (case RadiusPacket_new code i auth (TheList l) of
                   Inl e \<Rightarrow> Some (Inl e)
                 | Inr pkt \<Rightarrow> Some (Inr (pkt\<lparr>frozen := True\<rparr>, buf', D')))))"

section \<open>The server (server.js)\<close>

datatype socket_type = Auth | Acct

text \<open>
  A handler function is user code: called with the request and the response, it throws
  (\<open>Inl\<close>), or returns whether its result is truthy together with the response as it
  left it. A JavaScript value as \<open>use\<close> can receive it: a function or an object comes
  with the properties that \<open>in\<close> and a property access see on it.
\<close>

type_synonym handler_fun = "RadiusPacket \<Rightarrow> RadiusPacket \<Rightarrow> error + bool \<times> RadiusPacket"

datatype jsval =
    JUndefined | JNull | JBoolean bool | JNumber jsnum | JString string
  | JFunction handler_fun "(string \<times> jsval) list"
  | JObject "(string \<times> jsval) list"

fun typeof :: "jsval \<Rightarrow> string" where
  "typeof JUndefined = ''undefined''"
| "typeof JNull = ''object''"
| "typeof (JBoolean b) = ''boolean''"
| "typeof (JNumber x) = ''number''"
| "typeof (JString s) = ''string''"
| "typeof (JFunction f ps) = ''function''"
| "typeof (JObject ps) = ''object''"

fun truthy :: "jsval \<Rightarrow> bool" where
  "truthy JUndefined = False"
| "truthy JNull = False"
| "truthy (JBoolean b) = b"
| "truthy (JNumber x) = (x \<noteq> NaN \<and> x \<noteq> Num 0)"
| "truthy (JString s) = (s \<noteq> [])"
| "truthy (JFunction f ps) = True"
| "truthy (JObject ps) = True"

text \<open>\<open>name in v\<close> and \<open>v[name]\<close>, for a function or an object.\<close>

fun properties :: "jsval \<Rightarrow> (string \<times> jsval) list" where
  "properties (JFunction f ps) = ps"
| "properties (JObject ps) = ps"
| "properties v = []"

definition has_property :: "string \<Rightarrow> jsval \<Rightarrow> bool" where
  "has_property name v = (map_of (properties v) name \<noteq> None)"

definition get_property :: "jsval \<Rightarrow> string \<Rightarrow> jsval" where
  "get_property v name = (case map_of (properties v) name of Some x \<Rightarrow> x | None \<Rightarrow> JUndefined)"

fun type_name :: "socket_type \<Rightarrow> string" where
  "type_name Auth = ''auth''"
| "type_name Acct = ''acct''"

record server_state =
  clients :: "string \<Rightarrow> string option"
  handlers :: "jsval list"
  debug :: bool

text \<open>\<open>defaultResponse(type, req)\<close>: \<open>None\<close> is \<open>undefined\<close>. A static property of
  \<open>Code\<close> that does not exist reads \<open>undefined\<close>, which no request code equals.\<close>

definition default_code :: "socket_type \<Rightarrow> RadiusPacket \<Rightarrow> Code option" where
  "default_code t req =
     (case t of
        Auth \<Rightarrow>
          if Some (pkt_code req) = Code_get ''ACCESS_REQUEST'' then Code_get ''ACCESS_REJECT''
          else if Some (pkt_code req) = Code_get ''SERVER_STATUS'' then Code_get ''ACCESS_ACCEPT''
          else None
      | Acct \<Rightarrow>
          if Some (pkt_code req) = Code_get ''ACCOUNTING_REQUEST''
          then Code_get ''ACCOUNTING_RESPONSE''
          else None)"

fun add_all ::
  "node \<Rightarrow> Dictionary \<Rightarrow> RadiusPacket \<Rightarrow> Attribute list \<Rightarrow> error + RadiusPacket \<times> Dictionary" where
  "add_all nd D res [] = Inr (res, D)"
| "add_all nd D res (a # as) =
     (case RadiusPacket_add nd D res (Inl a) of
        Inl e \<Rightarrow> Inl e
      | Inr (res', D') \<Rightarrow> add_all nd D' res' as)"

definition defaultResponse ::
  "node \<Rightarrow> Dictionary \<Rightarrow> socket_type \<Rightarrow> RadiusPacket
     \<Rightarrow> error + RadiusPacket option \<times> Dictionary" where
  "defaultResponse nd D t req =
     (case default_code t req of
        None \<Rightarrow> Inr (None, D)
      | Some res_code \<Rightarrow>
          (case RadiusPacket_new (Some res_code) (int (pkt_identifier req))
                  (pkt_authenticator req) NoAttributes of
             Inl e \<Rightarrow> Inl e
           | Inr res \<Rightarrow>
               (case getAll D req (KStr ''Proxy-State'') of
                  Inl e \<Rightarrow> Inl e
                | Inr (as, D1) \<Rightarrow>
                    (case add_all nd D1 res as of
                       Inl e \<Rightarrow> Inl e
                     | Inr (res', D2) \<Rightarrow> Inr (Some res', D2)))))"

text \<open>\<open>invokeHandlers\<close>: the handlers in order, until one returns a truthy result.\<close>

fun invokeHandlers ::
  "RadiusPacket \<Rightarrow> RadiusPacket \<Rightarrow> socket_type \<Rightarrow> jsval list \<Rightarrow> error + RadiusPacket" where
  "invokeHandlers req res t [] = Inr res"
| "invokeHandlers req res t (h # hs) =
     (let f = get_property h (type_name t) in
      if truthy f then
        (case f of
           JFunction g ps \<Rightarrow>
             (case g req res of
                Inl e \<Rightarrow> Inl e
              | Inr (stop, res') \<Rightarrow>
                  if stop then Inr res' else invokeHandlers req res' t hs)
         | _ \<Rightarrow> Inl (TypeError ''handler[type] is not a function''))
      else invokeHandlers req res t hs)"

text \<open>\<open>getResponse\<close>: an exception of a handler is caught and logged, and the function
  returns \<open>undefined\<close>; an exception of \<open>defaultResponse\<close> is not.\<close>

definition getResponse ::
  "node \<Rightarrow> Dictionary \<Rightarrow> socket_type \<Rightarrow> RadiusPacket \<Rightarrow> jsval list
     \<Rightarrow> error + RadiusPacket option" where
  "getResponse nd D t req hs =
     (case defaultResponse nd D t req of
        Inl e \<Rightarrow> Inl e
      | Inr (None, D') \<Rightarrow> Inr None
      | Inr (Some res, D') \<Rightarrow>
          if Some (pkt_code req) \<noteq> Code_get ''STATUS_SERVER''
          then (case invokeHandlers req res t hs of
                  Inl e \<Rightarrow> Inr None
                | Inr res' \<Rightarrow> Inr (Some res'))
          else Inr (Some res))"

text \<open>
  The \<open>message\<close> listener of a socket: the datagrams it sends (buffer, port, address).
  Every exception is caught and traced. \<open>None\<close>: the listener never returns.
\<close>

definition on_message ::
  "node \<Rightarrow> Dictionary \<Rightarrow> server_state \<Rightarrow> socket_type \<Rightarrow> buffer \<Rightarrow> string \<times> nat
     \<Rightarrow> (buffer \<times> nat \<times> string) list option" where
  "on_message nd D st t msg rinfo =
     (case clients st (fst rinfo) of
        None \<Rightarrow> Some []
      | Some secret \<Rightarrow>
          (case RadiusPacket_fromWire nd D msg (Some (utf8_encode secret)) of
             None \<Rightarrow> None
           | Some (Inl e) \<Rightarrow> Some []
           | Some (Inr (req, msg', D')) \<Rightarrow>
               (case getResponse nd D' t req (handlers st) of
                  Inl e \<Rightarrow> Some []
                | Inr None \<Rightarrow> Some []
                | Inr (Some res) \<Rightarrow>
                    (case RadiusPacket_toWire nd res (utf8_encode secret) True of
                       Inl e \<Rightarrow> Some []
                     | Inr buffer \<Rightarrow> Some [(buffer, snd rinfo, fst rinfo)]))))"

text \<open>\<open>RadiusServer#use\<close>: what the call returns, with the state after it.\<close>

datatype use_result = ReturnsThis | ReturnsError error

definition use :: "server_state \<Rightarrow> jsval \<Rightarrow> error + use_result \<times> server_state" where
  "use st handler =
     (if typeof handler \<noteq> ''function'' \<and> typeof handler \<noteq> ''object''
      then Inr (ReturnsError (TypeError ''handler must be a function or object''), st)
      else if handler = JNull
      then Inl (TypeError ''cannot use in operator to search for auth in null'')
      else if has_property ''auth'' handler \<and> typeof (get_property handler ''auth'') \<noteq> ''function''
      then Inr (ReturnsError (TypeError ''handler.auth must be a function or undefined''), st)
      else if has_property ''acct'' handler \<and> typeof (get_property handler ''acct'') \<noteq> ''function''
      then Inr (ReturnsError (TypeError ''handler.acct must be a function or undefined''), st)
      else Inr (ReturnsThis, st\<lparr>handlers := handlers st @ [handler]\<rparr>))"

section \<open>The client (client.js)\<close>

record server =
  srv_server :: string
  srv_secret :: string
  srv_auth :: nat
  srv_acct :: nat
  srv_id :: nat

text \<open>What \<open>getState\<close> remembers for a server: the entries of the array \<open>state\<close>.\<close>

record attempt =
  a_code :: Code
  a_identifier :: nat
  a_authenticator :: buffer
  a_address :: string
  a_port :: nat
  a_secret :: string
  a_buffer :: buffer

datatype settlement = Resolved RadiusPacket | RejectedPacket RadiusPacket | Rejected error

text \<open>
  The state of one call of \<open>_request\<close>: the servers of the client (their counters
  \<open>id\<close> change), the array \<open>state\<close>, the variables \<open>attempt\<close>, \<open>current\<close> and
  \<open>timer\<close> (is a timeout pending), whether the socket is closed, the datagrams given
  to \<open>socket.send\<close> so far (buffer, port, address), how the promise was settled, and
  an exception that escaped from a timer callback.
\<close>

record request =
  rq_servers :: "server list"
  rq_state :: "nat \<Rightarrow> attempt option"
  rq_attempt :: nat
  rq_current :: "attempt option"
  rq_timer :: bool
  rq_closed :: bool
  rq_sent :: "(buffer \<times> nat \<times> string) list"
  rq_settled :: "settlement option"
  rq_uncaught :: "error option"

text \<open>
  \<open>getState(n)\<close>. \<open>RadiusPacket.randomAuthenticator()\<close> draws 16 random bytes: the
  draw for server \<open>n\<close> is \<open>rnd n\<close>, cut or filled to 16 bytes.
\<close>

definition randomAuthenticator :: "(nat \<Rightarrow> buffer) \<Rightarrow> nat \<Rightarrow> buffer" where
  "randomAuthenticator rnd n = take 16 (rnd n @ Buffer_alloc 16)"

definition getState ::
  "node \<Rightarrow> (nat \<Rightarrow> buffer) \<Rightarrow> Code \<Rightarrow> attrs_arg \<Rightarrow> request \<Rightarrow> nat \<Rightarrow> error + attempt \<times> request" where
  "getState nd rnd code as rq n =
     (case rq_state rq n of
        Some a \<Rightarrow> Inr (a, rq)
      | None \<Rightarrow>
          if n \<ge> length (rq_servers rq)
          then Inl (TypeError ''cannot read properties of undefined'')
          else
            (let srv = rq_servers rq ! n;
                 port = (if Some code = Code_get ''ACCOUNTING_REQUEST'' then srv_acct srv
                         else srv_auth srv);
                 ident = srv_id srv mod 256;
                 auth = randomAuthenticator rnd n
             in case RadiusPacket_new (Some code) (int ident) auth as of
                  Inl e \<Rightarrow> Inl e
                | Inr req \<Rightarrow>
                    (case RadiusPacket_toWire nd req (utf8_encode (srv_secret srv)) False of
                       Inl e \<Rightarrow> Inl e
                     | Inr buffer \<Rightarrow>
                         (let a = \<lparr>a_code = code, a_identifier = ident, a_authenticator = auth,
                                   a_address = srv_server srv, a_port = port,
                                   a_secret = srv_secret srv, a_buffer = buffer\<rparr>
                          in Inr (a, rq\<lparr>rq_servers :=
                                           (rq_servers rq)[n := srv\<lparr>srv_id := srv_id srv + 1\<rparr>],
                                         rq_state := (rq_state rq)(n \<mapsto> a)\<rparr>)))))"

text \<open>The function \<open>send\<close>: select the server, arm the timer, send the datagram.\<close>

definition send ::
  "node \<Rightarrow> (nat \<Rightarrow> buffer) \<Rightarrow> Code \<Rightarrow> attrs_arg \<Rightarrow> request \<Rightarrow> error + request" where
  "send nd rnd code as rq =
     (case getState nd rnd code as rq (rq_attempt rq mod length (rq_servers rq)) of
        Inl e \<Rightarrow> Inl e
      | Inr (cur, rq') \<Rightarrow>
          Inr (rq'\<lparr>rq_current := Some cur, rq_timer := True,
                   rq_sent := rq_sent rq' @ [(a_buffer cur, a_port cur, a_address cur)]\<rparr>))"

text \<open>The executor of the promise: an exception of the first \<open>send\<close> rejects it.\<close>

definition start_request ::
  "node \<Rightarrow> (nat \<Rightarrow> buffer) \<Rightarrow> Code \<Rightarrow> attrs_arg \<Rightarrow> server list \<Rightarrow> request" where
  "start_request nd rnd code as srvs =
     (let rq = \<lparr>rq_servers = srvs, rq_state = (\<lambda>n. None), rq_attempt = 0,
                rq_current = None, rq_timer = False, rq_closed = False, rq_sent = [],
                rq_settled = None, rq_uncaught = None\<rparr>
      in case send nd rnd code as rq of
           Inl e \<Rightarrow> rq\<lparr>rq_settled := Some (Rejected e)\<rparr>
         | Inr rq' \<Rightarrow> rq')"

text \<open>The callback of the timer, \<open>max = retry * servers.length\<close>.\<close>

definition on_timeout ::
  "node \<Rightarrow> (nat \<Rightarrow> buffer) \<Rightarrow> Code \<Rightarrow> attrs_arg \<Rightarrow> nat \<Rightarrow> request \<Rightarrow> request" where
  "on_timeout nd rnd code as retry rq =
     (let rq1 = rq\<lparr>rq_timer := False, rq_attempt := rq_attempt rq + 1\<rparr> in
      if rq_attempt rq1 < retry * length (rq_servers rq1)
      then (case send nd rnd code as rq1 of
              Inl e \<Rightarrow> rq1\<lparr>rq_uncaught := Some e\<rparr>
            | Inr rq2 \<Rightarrow> rq2)
      else rq1\<lparr>rq_closed := True,
               rq_settled := (case rq_settled rq1 of None \<Rightarrow> Some (Rejected (Error ''timeout''))
                              | Some x \<Rightarrow> Some x)\<rparr>)"

text \<open>
  The \<open>message\<close> listener. The response is parsed without a secret; the digest is taken
  over the datagram as the parser left it (\<open>msg.buffer\<close> is taken to hold the datagram
  and nothing else). \<open>None\<close>: the listener never returns.
\<close>

definition response_action :: "Code \<Rightarrow> RadiusPacket \<Rightarrow> settlement option" where
  "response_action code res =
     (if Code_toString code = Some ''Access-Request'' then
        (if Code_toString (pkt_code res) = Some ''Access-Accept'' then Some (Resolved res)
         else if Code_toString (pkt_code res) = Some ''Access-Reject''
         then Some (RejectedPacket res)
         else None)
      else if Code_toString code = Some ''Accounting-Request'' then
        (if Code_toString (pkt_code res) = Some ''Accounting-Response'' then Some (Resolved res)
         else None)
      else None)"

definition on_response ::
  "node \<Rightarrow> Code \<Rightarrow> request \<times> Dictionary \<Rightarrow> buffer \<Rightarrow> string \<times> nat
     \<Rightarrow> (request \<times> Dictionary) option" where
  "on_response nd code s msg rinfo =
     (let (rq, D) = s in
      case rq_current rq of
        None \<Rightarrow> Some s
      | Some cur \<Rightarrow>
          if fst rinfo \<noteq> a_address cur \<or> snd rinfo \<noteq> a_port cur then Some s
          else
            (case RadiusPacket_fromWire nd D msg None of
               None \<Rightarrow> None
             | Some (Inl e) \<Rightarrow> Some s
             | Some (Inr (res, msg', D')) \<Rightarrow>
                 if pkt_identifier res \<noteq> a_identifier cur then Some (rq, D')
                 else if slice msg' 4 20 \<noteq>
                         digest nd (slice msg' 0 4 @ a_authenticator cur @ drop 20 msg'
                                    @ utf8_encode (a_secret cur))
                 then Some (rq, D')
                 else
                   (case response_action code res of
                      None \<Rightarrow> Some (rq, D')
                    | Some act \<Rightarrow>
                        Some (rq\<lparr>rq_timer := False, rq_closed := True,
                                 rq_settled := (case rq_settled rq of None \<Rightarrow> Some act
                                                | Some x \<Rightarrow> Some x)\<rparr>, D'))))"

text \<open>
  The events of the loop: the pending timer fires, or a datagram arrives. A timer
  fires only while one is pending, and a closed socket receives nothing.
\<close>

datatype event = TimerFires | Message buffer "string \<times> nat"

definition step ::
  "node \<Rightarrow> (nat \<Rightarrow> buffer) \<Rightarrow> Code \<Rightarrow> attrs_arg \<Rightarrow> nat \<Rightarrow> request \<times> Dictionary \<Rightarrow> event
     \<Rightarrow> (request \<times> Dictionary) option" where
  "step nd rnd code as retry s ev =
     (case ev of
        TimerFires \<Rightarrow>
          if rq_timer (fst s) then Some (on_timeout nd rnd code as retry (fst s), snd s)
          else Some s
      | Message msg rinfo \<Rightarrow>
          if rq_closed (fst s) then Some s else on_response nd code s msg rinfo)"

fun run ::
  "node \<Rightarrow> (nat \<Rightarrow> buffer) \<Rightarrow> Code \<Rightarrow> attrs_arg \<Rightarrow> nat \<Rightarrow> request \<times> Dictionary \<Rightarrow> event list
     \<Rightarrow> (request \<times> Dictionary) option" where
  "run nd rnd code as retry s [] = Some s"
| "run nd rnd code as retry s (ev # evs) =
     (case step nd rnd code as retry s ev of
        None \<Rightarrow> None
      | Some s' \<Rightarrow> run nd rnd code as retry s' evs)"

text \<open>\<open>_request(client_state, code, attrs)\<close> followed by the events \<open>evs\<close>.\<close>

definition request_run ::
  "node \<Rightarrow> (nat \<Rightarrow> buffer) \<Rightarrow> Dictionary \<Rightarrow> server list \<Rightarrow> nat \<Rightarrow> Code \<Rightarrow> attrs_arg \<Rightarrow> event list
     \<Rightarrow> (request \<times> Dictionary) option" where
  "request_run nd rnd D srvs retry code as evs =
     run nd rnd code as retry (start_request nd rnd code as srvs, D) evs"

section \<open>A buffer and the memory it views\<close>

text \<open>
  For the authenticator of a packet the identity of the memory matters. A \<open>Buffer\<close>
  object is a view (address of the memory, offset, length); the store maps an address
  to the bytes there. \<open>buf.slice(start, end)\<close> of Node.js makes a new view of the
  same memory; it copies nothing.
\<close>

record view =
  v_mem :: nat
  v_off :: nat
  v_len :: nat

type_synonym store = "nat \<Rightarrow> buffer"

definition view_slice :: "view \<Rightarrow> nat \<Rightarrow> view" where
  "view_slice b start = \<lparr>v_mem = v_mem b, v_off = v_off b + min start (v_len b), v_len = v_len b - start\<rparr>"

definition view_bytes :: "store \<Rightarrow> view \<Rightarrow> buffer" where
  "view_bytes h b = take (v_len b) (drop (v_off b) (h (v_mem b)))"

text \<open>\<open>b[i] = v\<close>.\<close>

definition view_set :: "store \<Rightarrow> view \<Rightarrow> nat \<Rightarrow> byte \<Rightarrow> store" where
  "view_set h b i v =
     (if i < v_len b then h(v_mem b := set_byte (h (v_mem b)) (v_off b + i) v) else h)"

text \<open>\<open>parseAuthenticator\<close> returns its argument; the constructor keeps it in the
  variable the accessors close over; the getter is \<open>authenticator.slice(0)\<close>.\<close>

definition parseAuthenticator :: "view \<Rightarrow> error + view" where
  "parseAuthenticator a =
     (if v_len a \<noteq> 16 then Inl (RangeError ''authenticator length incorrect'') else Inr a)"

record packet_object =
  po_code :: Code
  po_identifier :: nat
  po_authenticator :: view

definition packet_object_new :: "Code \<Rightarrow> int \<Rightarrow> view \<Rightarrow> error + packet_object" where
  "packet_object_new code i a =
     (if i < 0 \<or> i > 255 then Inl (RangeError ''id must be an 8-bit unsigned integer'')
      else (case parseAuthenticator a of
              Inl e \<Rightarrow> Inl e
            | Inr a' \<Rightarrow> Inr \<lparr>po_code = code, po_identifier = nat i, po_authenticator = a'\<rparr>))"

definition get_authenticator :: "packet_object \<Rightarrow> view" where
  "get_authenticator p = view_slice (po_authenticator p) 0"

section \<open>The bytes of an attribute on the wire\<close>

text \<open>
  For the statements about \<open>toWire\<close> and \<open>fromWire\<close>: the value bytes an
  attribute is sent with (encrypted when the entry says so), and the whole image, header
  and value, as the layouts of the specification give it.
\<close>

definition wire_data :: "node \<Rightarrow> Attribute \<Rightarrow> buffer \<Rightarrow> buffer \<Rightarrow> buffer" where
  "wire_data nd a secret auth =
     (case toBuffer (avalue a) of
        Inl e \<Rightarrow> []
      | Inr abuf \<Rightarrow>
          if flags_encrypt (attr_dict a) = Some 1
          then encodeMD5 (digest nd) abuf secret auth else abuf)"

definition wire_image :: "node \<Rightarrow> Attribute \<Rightarrow> buffer \<Rightarrow> buffer \<Rightarrow> buffer" where
  "wire_image nd a secret auth =
     (let d = attr_dict a; data = wire_data nd a secret auth in
      case ent_vendor d of
        None \<Rightarrow> [word_of_int (ent_id d), of_nat (2 + length data)] @ data
      | Some v \<Rightarrow>
          [word_of_int (ent_id d),
           of_nat (2 + 4 + typeSize v + lengthSize v + length data)]
          @ be_bytes 4 (nat (vendor_id v))
          @ be_bytes (typeSize v) (nat (case sub_id d of Some s \<Rightarrow> s | None \<Rightarrow> 0))
          @ (if lengthSize v = 0 then []
             else be_bytes (lengthSize v) (min (length data) 255))
          @ data)"

text \<open>What \<open>toWire\<close> needs to succeed, apart from room in the buffer: a value that
  converts, and numbers that fit their fields.\<close>

definition fits_fields :: "node \<Rightarrow> Attribute \<Rightarrow> buffer \<Rightarrow> buffer \<Rightarrow> bool" where
  "fits_fields nd a secret auth =
     (let d = attr_dict a in
      (case toBuffer (avalue a) of Inl e \<Rightarrow> False | Inr abuf \<Rightarrow> True)
      \<and> 0 \<le> ent_id d \<and> ent_id d \<le> 255
      \<and> length (wire_image nd a secret auth) \<le> 255
      \<and> (case ent_vendor d of
            None \<Rightarrow> True
          | Some v \<Rightarrow>
              0 \<le> vendor_id v \<and> vendor_id v < 2 ^ 32
              \<and> (case sub_id d of
                    None \<Rightarrow> False
                  | Some s \<Rightarrow> 0 \<le> s \<and> s < 2 ^ (8 * typeSize v))))"

text \<open>The images of the attributes of a list, one after the other.\<close>

abbreviation wire_images :: "node \<Rightarrow> Attribute list \<Rightarrow> buffer \<Rightarrow> buffer \<Rightarrow> buffer" where
  "wire_images nd as secret auth \<equiv> concat (map (\<lambda>a. wire_image nd a secret auth) as)"

text \<open>
  The image of a packet: code, identifier, length (two bytes, big-endian), the
  authenticator of the packet, the attributes. A response carries, in place of the
  authenticator, the digest of that image followed by the secret.
\<close>

definition request_image :: "node \<Rightarrow> RadiusPacket \<Rightarrow> buffer \<Rightarrow> buffer" where
  "request_image nd p secret =
     (let body = wire_images nd (attrs (pkt_attributes p)) secret (pkt_authenticator p) in
      [of_nat (valueOf (pkt_code p)), of_nat (pkt_identifier p)]
      @ be_bytes 2 (20 + length body) @ pkt_authenticator p @ body)"

definition response_image :: "node \<Rightarrow> RadiusPacket \<Rightarrow> buffer \<Rightarrow> buffer" where
  "response_image nd p secret =
     (let r = request_image nd p secret in copy (digest nd (r @ secret)) r 4)"

text \<open>A value as the constructors of its class make it: of the class, with a buffer of
  a legal length or a number in range.\<close>

fun value_of_class :: "AValue_class \<Rightarrow> AValue \<Rightarrow> bool" where
  "value_of_class t (BufferValue t' b) =
     (t' = t \<and> \<not> is_ANumeric t \<and>
      (if t = AInet4 then length b = 4 else 1 \<le> length b \<and> length b \<le> 253))"
| "value_of_class t (NumericValue t' v) =
     (t' = t \<and> is_ANumeric t \<and> v < 2 ^ (8 * static_length t))"

text \<open>
  An attribute the dictionary \<open>D\<close> describes: looking up the numbers the attribute is
  sent with gives back its entry. For a plain attribute the entry is filed under its
  number (1..255) and is not of the class \<open>AVSA\<close>; for an attribute of a vendor,
  number 26 is an entry of the class \<open>AVSA\<close>, the vendor is filed under its number,
  and the entry under the vendor's number and its sub-id.
\<close>

definition registered :: "Dictionary \<Rightarrow> Attribute \<Rightarrow> bool" where
  "registered D a =
     (let d = attr_dict a in
      case ent_vendor d of
        None \<Rightarrow> 1 \<le> ent_id d \<and> dict D (KNum (ent_id d)) = Some d \<and> \<not> isVSA d
      | Some v \<Rightarrow>
          ent_id d = 26
          \<and> (case dict D (KNum 26) of None \<Rightarrow> False | Some e \<Rightarrow> isVSA e)
          \<and> vendors D (KNum (vendor_id v)) = Some v
          \<and> (case vsas D (vendor_id v) of
                None \<Rightarrow> False
              | Some m \<Rightarrow>
                  (case sub_id d of None \<Rightarrow> False | Some s \<Rightarrow> m s = Some d)))"

text \<open>The attributes the round trip is stated for.\<close>

definition plain_attribute :: "Dictionary \<Rightarrow> Attribute \<Rightarrow> bool" where
  "plain_attribute D a =
     (registered D a \<and> value_of_class (realType (attr_dict a)) (avalue a)
      \<and> flags_encrypt (attr_dict a) = None)"

text \<open>A code of the table: the property named by its number is the code itself.\<close>

definition valid_code :: "Code \<Rightarrow> bool" where
  "valid_code c = (Code_get (Number_toString (int (valueOf c))) = Some c)"

section \<open>The datagrams of a request\<close>

text \<open>Where \<open>getState\<close> sends the request for a server: port and address.\<close>

definition destination :: "Code \<Rightarrow> server \<Rightarrow> nat \<times> string" where
  "destination code srv =
     (if Some code = Code_get ''ACCOUNTING_REQUEST'' then srv_acct srv else srv_auth srv,
      srv_server srv)"

text \<open>
  What holds of the state of a request to the servers \<open>srvs\<close> at every moment: the
  servers are the ones of the client (only their counters move); what is remembered for
  server \<open>n\<close> goes to server \<open>n\<close>; datagram \<open>i\<close> went to server
  \<open>i mod k\<close>; no more datagrams were sent than attempts were made, one per attempt
  while a timer is pending, and never more than \<open>retry * k\<close>.
\<close>

definition round_robin :: "Code \<Rightarrow> server list \<Rightarrow> nat \<Rightarrow> request \<Rightarrow> bool" where
  "round_robin code srvs retry rq =
     (map (destination code) (rq_servers rq) = map (destination code) srvs
      \<and> (\<forall>n a. rq_state rq n = Some a \<longrightarrow>
             n < length srvs \<and> (a_port a, a_address a) = destination code (srvs ! n))
      \<and> map snd (rq_sent rq)
          = map (\<lambda>i. destination code (srvs ! (i mod length srvs))) [0..<length (rq_sent rq)]
      \<and> length (rq_sent rq) \<le> rq_attempt rq + 1
      \<and> (rq_timer rq \<longrightarrow>
             length (rq_sent rq) = rq_attempt rq + 1 \<and> rq_attempt rq < retry * length srvs)
      \<and> length (rq_sent rq) \<le> retry * length srvs)"

section \<open>Concrete inputs for the examples\<close>

text \<open>
  Closed examples need a platform. \<open>sample_node\<close> is a stand-in: a digest of 16 bytes
  that depends on every byte of its input, a decoder and a literal reader that give up.
  Every general statement below holds for all platforms; the examples only run it.
\<close>

definition sample_digest :: "buffer \<Rightarrow> buffer" where
  "sample_digest m = map (\<lambda>i. fold (\<lambda>b acc. 31 * acc + b + of_nat i) m (of_nat i)) [0..<16]"

definition sample_node :: node where
  "sample_node = \<lparr>digest = sample_digest, utf8_decode = (\<lambda>b. []), literal = (\<lambda>s. NaN)\<rparr>"

definition zero_authenticator :: buffer where
  "zero_authenticator = replicate 16 0"

text \<open>A Status-Server request (code 12) with identifier 7 and no attributes; the same
  with one more byte after the header.\<close>

definition status_server_datagram :: buffer where
  "status_server_datagram = [12, 7, 0, 20] @ zero_authenticator"

definition short_tail_datagram :: buffer where
  "short_tail_datagram = [2, 7, 0, 21] @ zero_authenticator @ [0]"

text \<open>A vendor with type and length fields of one byte, and a string attribute of it
  with the value \<open>xyzw\<close>.\<close>

definition cisco :: Vendor where
  "cisco = \<lparr>vendor_ref = 0, vendor_name = ''Cisco'', vendor_id = 9, typeSize = 1, lengthSize = 1\<rparr>"

definition cisco_avpair :: DictionaryEntry where
  "cisco_avpair =
     \<lparr>ent_ref = 1, ent_name = ''Cisco-AVPair'', ent_id = 26, sub_id = Some 1,
      ent_vendor = Some cisco, ent_type = AVSA, sub_type = Some AString, flags = []\<rparr>"

definition xyzw :: Attribute where
  "xyzw = \<lparr>attr_dict = cisco_avpair, avalue = BufferValue AString [0x78, 0x79, 0x7a, 0x77]\<rparr>"

text \<open>
  The attribute 1 of RFC 2865 (a string), the attribute 26 (of the class \<open>AVSA\<close>), and
  the dictionary these lines build, in this order:
  \<^verbatim>\<open>VENDOR Cisco 9\<close>, \<^verbatim>\<open>ATTRIBUTE Cisco-AVPair 1 string\<close> (of the vendor),
  \<^verbatim>\<open>ATTRIBUTE User-Name 1 string\<close>, \<^verbatim>\<open>ATTRIBUTE Vendor-Specific 26 vsa\<close>.
\<close>

definition user_name :: DictionaryEntry where
  "user_name =
     \<lparr>ent_ref = 2, ent_name = ''User-Name'', ent_id = 1, sub_id = None,
      ent_vendor = None, ent_type = AString, sub_type = None, flags = []\<rparr>"

definition vendor_specific :: DictionaryEntry where
  "vendor_specific =
     \<lparr>ent_ref = 3, ent_name = ''Vendor-Specific'', ent_id = 26, sub_id = None,
      ent_vendor = None, ent_type = AVSA, sub_type = None, flags = []\<rparr>"

definition sample_dictionary :: Dictionary where
  "sample_dictionary =
     \<lparr>dict = (\<lambda>k. None)(KStr ''cisco-avpair'' \<mapsto> cisco_avpair, KNum 1 \<mapsto> user_name,
                KStr ''user-name'' \<mapsto> user_name, KNum 26 \<mapsto> vendor_specific,
                KStr ''vendor-specific'' \<mapsto> vendor_specific),
      vendors = (\<lambda>k. None)(KNum 9 \<mapsto> cisco, KStr ''cisco'' \<mapsto> cisco),
      vsas = (\<lambda>i. None)(9 \<mapsto> (\<lambda>s. None)(1 \<mapsto> cisco_avpair)),
      next_ref = 4\<rparr>"

text \<open>An Access-Accept with the identifier 7 and two attributes: User-Name \<open>alice\<close> and
  the attribute \<open>xyzw\<close> of the vendor. The secret is \<open>s3\<close>.\<close>

definition alice :: Attribute where
  "alice = \<lparr>attr_dict = user_name, avalue = BufferValue AString [0x61, 0x6c, 0x69, 0x63, 0x65]\<rparr>"

definition sample_packet :: RadiusPacket where
  "sample_packet =
     \<lparr>pkt_code = Code 2, pkt_identifier = 7, pkt_authenticator = zero_authenticator,
      pkt_attributes = AttributeList_new [alice, xyzw] False, frozen = False\<rparr>"

definition sample_secret :: buffer where
  "sample_secret = [0x73, 0x33]"

text \<open>An Access-Accept with sixteen User-Name attributes of 253 bytes each: 4080 bytes of
  attributes after the 20 bytes of the header.\<close>

definition long_name :: Attribute where
  "long_name = \<lparr>attr_dict = user_name, avalue = BufferValue AString (replicate 253 0x61)\<rparr>"

definition big_packet :: RadiusPacket where
  "big_packet =
     \<lparr>pkt_code = Code 2, pkt_identifier = 7, pkt_authenticator = zero_authenticator,
      pkt_attributes = AttributeList_new (replicate 16 long_name) False, frozen = False\<rparr>"

text \<open>A client with the one server its constructor adds (the default ports), whose
  counter of identifiers starts at 0.\<close>

definition one_server :: server where
  "one_server =
     \<lparr>srv_server = ''127.0.0.1'', srv_secret = ''s3'', srv_auth = 1812, srv_acct = 1813,
      srv_id = 0\<rparr>"

text \<open>An attribute of the vendor with a value of 248 bytes, a length the constructor
  accepts: with the eight bytes of the headers it takes 256 bytes.\<close>

definition long_avpair :: Attribute where
  "long_avpair = \<lparr>attr_dict = cisco_avpair, avalue = BufferValue AString (replicate 248 0x61)\<rparr>"

(* properties *)

section \<open>Properties of the User-Password transform\<close>

lemma length_set_byte [simp]: "length (set_byte d i v) = length d"
  by (simp add: set_byte_def)

lemma nth_set_byte: "k < length d \<Longrightarrow> set_byte d i v ! k = (if k = i then v else d ! k)"
  by (simp add: set_byte_def)

lemma fold_set_byte_length:
  "length (fold (\<lambda>j d. set_byte d (f j) (g j)) js d) = length d"
  by (induction js arbitrary: d) auto

lemma length_xorBlock: "length (xorBlock i d s b) = length d"
  unfolding xorBlock_def by (rule fold_set_byte_length)

lemma nth_fold_xor:
  "k < length d \<Longrightarrow>
   fold (\<lambda>j d. set_byte d (i + j) (byte_at s (i + j) XOR byte_at b j)) [0..<m] d ! k =
     (if i \<le> k \<and> k < i + m then byte_at s k XOR byte_at b (k - i) else d ! k)"
proof (induction m)
  case 0
  then show ?case by auto
next
  case (Suc m)
  then show ?case
    by (auto simp: nth_set_byte fold_set_byte_length)
qed

lemma nth_xorBlock:
  "k < length d \<Longrightarrow> xorBlock i d s b ! k =
     (if i \<le> k \<and> k < i + 16 then byte_at s k XOR byte_at b (k - i) else d ! k)"
  unfolding xorBlock_def by (rule nth_fold_xor)

lemma and_f0: "(n::nat) AND 0xf0 = (n div 16 mod 16) * 16"
proof -
  have e: "(0xf0::nat) = push_bit 4 (mask 4)"
    by (simp add: mask_eq_exp_minus_1 push_bit_eq_mult)
  have "n AND push_bit 4 (mask 4) = push_bit 4 (take_bit 4 (drop_bit 4 n))"
    by (rule bit_eqI) (auto simp: bit_simps)
  then show ?thesis
    unfolding e by (simp add: push_bit_eq_mult take_bit_eq_mod drop_bit_eq_div)
qed

lemma enc_n: "(n::nat) \<le> 240 \<Longrightarrow> (n + 15) AND 0xf0 = (n + 15) div 16 * 16"
  by (simp add: and_f0)

lemma length_encodeMD5_loop:
  "length (encodeMD5_loop H secret a n i p c) = length c"
  by (induction H secret a n i p c rule: encodeMD5_loop.induct)
     (subst encodeMD5_loop.simps, simp add: Let_def length_xorBlock)

lemma encodeMD5_loop_below:
  "k < i \<Longrightarrow> k < length c \<Longrightarrow> encodeMD5_loop H secret a n i p c ! k = c ! k"
proof (induction H secret a n i p c rule: encodeMD5_loop.induct)
  case (1 H secret a n i p c)
  show ?case
  proof (cases "i < n")
    case True
    then show ?thesis
      using 1 by (subst encodeMD5_loop.simps) (simp add: Let_def length_xorBlock nth_xorBlock)
  next
    case False
    then show ?thesis by (subst encodeMD5_loop.simps) simp
  qed
qed

lemma slice_cong_below:
  "length x = length y \<Longrightarrow> (\<And>k. k < e \<Longrightarrow> k < length y \<Longrightarrow> x ! k = y ! k) \<Longrightarrow>
   slice x s e = slice y s e"
  unfolding slice_def by (rule nth_equalityI) auto

lemma encodeMD5_loop_block:
  "i \<le> k \<Longrightarrow> k < n \<Longrightarrow> 16 dvd (k - i) \<Longrightarrow> j < 16 \<Longrightarrow> k + j < length c \<Longrightarrow>
   encodeMD5_loop H secret a n i p c ! (k + j) =
     byte_at p (k + j) XOR
     byte_at (md5 H secret (if k = 0 then a
                             else slice (encodeMD5_loop H secret a n i p c) (k - 16) k)) j"
proof (induction H secret a n i p c rule: encodeMD5_loop.induct)
  case (1 H secret a n i p c)
  let ?chunk = "if i = 0 then a else slice c (i - 16) i"
  let ?b = "md5 H secret ?chunk"
  let ?c' = "xorBlock i c p ?b"
  let ?r = "encodeMD5_loop H secret a n i p c"
  from 1 have lt: "i < n" by simp
  then have r: "?r = encodeMD5_loop H secret a n (i + 16) p ?c'"
    by (subst encodeMD5_loop.simps) (simp add: Let_def)
  show ?case
  proof (cases "k = i")
    case True
    have "?r ! (i + j) = ?c' ! (i + j)"
      unfolding r using 1(6) True 1(5)
      by (intro encodeMD5_loop_below) (auto simp: length_xorBlock)
    also have "\<dots> = byte_at p (i + j) XOR byte_at ?b j"
      using 1(6) True 1(5) by (simp add: nth_xorBlock)
    finally have a1: "?r ! (i + j) = byte_at p (i + j) XOR byte_at ?b j" .
    have "slice ?r (i - 16) i = slice c (i - 16) i"
    proof (rule slice_cong_below)
      show "length ?r = length c" by (rule length_encodeMD5_loop)
    next
      fix k assume k: "k < i" "k < length c"
      have "?r ! k = ?c' ! k"
        unfolding r using k by (intro encodeMD5_loop_below) (auto simp: length_xorBlock)
      then show "?r ! k = c ! k" using k by (simp add: nth_xorBlock)
    qed
    then show ?thesis using a1 True by simp
  next
    case False
    from 1(4) obtain q where q: "k - i = 16 * q" by (auto simp: dvd_def)
    with False 1(2) have q0: "q \<noteq> 0" by auto
    with q have ge: "i + 16 \<le> k" by (cases q) auto
    have "k - (i + 16) = 16 * (q - 1)" using q q0 by (cases q) auto
    then have d: "16 dvd (k - (i + 16))" by simp
    have "encodeMD5_loop H secret a n (i + 16) p ?c' ! (k + j) =
      byte_at p (k + j) XOR
      byte_at (md5 H secret (if k = 0 then a
         else slice (encodeMD5_loop H secret a n (i + 16) p ?c') (k - 16) k)) j"
      using lt ge 1(3) d 1(5) 1(6)
      by (intro 1(1)) (auto simp: length_xorBlock)
    then show ?thesis unfolding r .
  qed
qed


lemma length_decodeMD5_loop:
  "length (decodeMD5_loop H secret a n i p c) = length p"
  by (induction H secret a n i p c rule: decodeMD5_loop.induct)
     (subst decodeMD5_loop.simps, simp add: Let_def length_xorBlock)

lemma decodeMD5_loop_below:
  "k < i \<Longrightarrow> k < length p \<Longrightarrow> decodeMD5_loop H secret a n i p c ! k = p ! k"
proof (induction H secret a n i p c rule: decodeMD5_loop.induct)
  case (1 H secret a n i p c)
  show ?case
  proof (cases "i < n")
    case True
    then show ?thesis
      using 1 by (subst decodeMD5_loop.simps) (simp add: Let_def length_xorBlock nth_xorBlock)
  next
    case False
    then show ?thesis by (subst decodeMD5_loop.simps) simp
  qed
qed

lemma decodeMD5_loop_block:
  "i \<le> k \<Longrightarrow> k < n \<Longrightarrow> 16 dvd (k - i) \<Longrightarrow> j < 16 \<Longrightarrow> k + j < length p \<Longrightarrow>
   decodeMD5_loop H secret a n i p c ! (k + j) =
     byte_at c (k + j) XOR
     byte_at (md5 H secret (if k = 0 then a else slice c (k - 16) k)) j"
proof (induction H secret a n i p c rule: decodeMD5_loop.induct)
  case (1 H secret a n i p c)
  let ?b = "md5 H secret (if i = 0 then a else slice c (i - 16) i)"
  let ?p' = "xorBlock i p c ?b"
  let ?r = "decodeMD5_loop H secret a n i p c"
  from 1 have lt: "i < n" by simp
  then have r: "?r = decodeMD5_loop H secret a n (i + 16) ?p' c"
    by (subst decodeMD5_loop.simps) (simp add: Let_def)
  show ?case
  proof (cases "k = i")
    case True
    have "?r ! (i + j) = ?p' ! (i + j)"
      unfolding r using 1(6) True 1(5)
      by (intro decodeMD5_loop_below) (auto simp: length_xorBlock)
    also have "\<dots> = byte_at c (i + j) XOR byte_at ?b j"
      using 1(6) True 1(5) by (simp add: nth_xorBlock)
    finally show ?thesis using True by simp
  next
    case False
    from 1(4) obtain q where q: "k - i = 16 * q" by (auto simp: dvd_def)
    with False 1(2) have q0: "q \<noteq> 0" by auto
    with q have ge: "i + 16 \<le> k" by (cases q) auto
    have "k - (i + 16) = 16 * (q - 1)" using q q0 by (cases q) auto
    then have d: "16 dvd (k - (i + 16))" by simp
    have "decodeMD5_loop H secret a n (i + 16) ?p' c ! (k + j) =
      byte_at c (k + j) XOR
      byte_at (md5 H secret (if k = 0 then a else slice c (k - 16) k)) j"
      using lt ge 1(3) d 1(5) 1(6)
      by (intro 1(1)) (auto simp: length_xorBlock)
    then show ?thesis unfolding r .
  qed
qed

lemma xor_cancel_byte: "(x XOR y) XOR y = (x::byte)"
  by (simp add: xor.assoc)

text \<open>Decoding what the encoding loop wrote gives back the padded plain text.\<close>

lemma decodeMD5_loop_encodeMD5_loop:
  assumes n: "16 dvd n" and lp: "length p = n" and lc: "length c = n" and lq: "length q = n"
  shows "decodeMD5_loop H secret a n 0 q (encodeMD5_loop H secret a n 0 p c) = p"
proof (rule nth_equalityI)
  show "length (decodeMD5_loop H secret a n 0 q (encodeMD5_loop H secret a n 0 p c)) = length p"
    by (simp add: length_decodeMD5_loop lq lp)
next
  fix x
  let ?C = "encodeMD5_loop H secret a n 0 p c"
  assume "x < length (decodeMD5_loop H secret a n 0 q ?C)"
  then have x: "x < n" by (simp add: length_decodeMD5_loop lq)
  define k where "k = 16 * (x div 16)"
  define j where "j = x mod 16"
  have xk: "x = k + j" and j: "j < 16" and dk: "16 dvd (k - 0)"
    by (simp_all add: k_def j_def)
  from n obtain m where m: "n = 16 * m" by (auto simp: dvd_def)
  have kn: "k < n" using x unfolding k_def m by auto
  have "decodeMD5_loop H secret a n 0 q ?C ! (k + j) =
     byte_at ?C (k + j) XOR byte_at (md5 H secret (if k = 0 then a else slice ?C (k - 16) k)) j"
    using kn dk j x xk lq by (intro decodeMD5_loop_block) auto
  moreover have "?C ! (k + j) =
     byte_at p (k + j) XOR byte_at (md5 H secret (if k = 0 then a else slice ?C (k - 16) k)) j"
    using kn dk j x xk lc by (intro encodeMD5_loop_block) auto
  moreover have "byte_at ?C (k + j) = ?C ! (k + j)" "byte_at p (k + j) = p ! (k + j)"
    using x xk lp lc by (simp_all add: byte_at_def length_encodeMD5_loop)
  ultimately show "decodeMD5_loop H secret a n 0 q ?C ! x = p ! x"
    unfolding xk by (simp add: xor_cancel_byte)
qed

lemma stripTrailingNULs_loop_le: "stripTrailingNULs_loop b n \<le> n"
  by (induction n) auto

lemma stripTrailingNULs_loop_append:
  "n \<le> length b \<Longrightarrow> stripTrailingNULs_loop (b @ r) n = stripTrailingNULs_loop b n"
  by (induction n) (auto simp: nth_append)

lemma stripTrailingNULs_loop_zeros:
  "stripTrailingNULs_loop (p @ replicate k 0) (length p + k) = stripTrailingNULs_loop p (length p)"
proof (induction k)
  case 0
  then show ?case by simp
next
  case (Suc k)
  have "stripTrailingNULs_loop (p @ replicate (Suc k) 0) (length p + Suc k) =
        stripTrailingNULs_loop ((p @ replicate k 0) @ [0]) (Suc (length p + k))"
    by (simp add: replicate_append_same)
  also have "\<dots> = stripTrailingNULs_loop ((p @ replicate k 0) @ [0]) (length p + k)"
    by (simp add: nth_append)
  also have "\<dots> = stripTrailingNULs_loop (p @ replicate k 0) (length p + k)"
    by (rule stripTrailingNULs_loop_append) simp
  finally show ?case using Suc by simp
qed

lemma stripTrailingNULs_zeros:
  "stripTrailingNULs (p @ replicate k 0) = stripTrailingNULs p"
  using stripTrailingNULs_loop_le [of p "length p"]
  by (simp add: stripTrailingNULs_def slice_def stripTrailingNULs_loop_zeros)

lemma stripTrailingNULs_id:
  "p = [] \<or> last p \<noteq> 0 \<Longrightarrow> stripTrailingNULs p = p"
  by (cases p rule: rev_cases) (auto simp: stripTrailingNULs_def slice_def)

lemma encodeMD5_length:
  "length password \<le> 240 \<Longrightarrow>
   length (encodeMD5 H password secret a) = (length password + 15) div 16 * 16"
  by (simp add: encodeMD5_def Let_def length_encodeMD5_loop Buffer_alloc_def enc_n)

lemma decodeMD5_encodeMD5:
  assumes "length password \<le> 128"
  shows "decodeMD5 H dec (encodeMD5 H password secret a) (Some secret) a =
         Inr (Buffer_toString dec (stripTrailingNULs password))"
proof -
  define n where "n = (length password + 15) div 16 * 16"
  have n: "(length password + 15) AND 0xf0 = n"
    using assms by (simp add: enc_n n_def)
  have len: "length password \<le> n" "n \<le> 128" "16 dvd n"
    using assms by (auto simp: n_def)
  have p: "copy password (Buffer_alloc n) 0 = password @ replicate (n - length password) 0"
    using len by (simp add: copy_def Buffer_alloc_def)
  have l: "length (encodeMD5 H password secret a) = n"
    using assms by (simp add: encodeMD5_length n_def)
  have "decodeMD5_loop H secret a n 0 (Buffer_alloc n)
          (encodeMD5_loop H secret a n 0 (copy password (Buffer_alloc n) 0) (Buffer_alloc n)) =
        copy password (Buffer_alloc n) 0"
    using len by (intro decodeMD5_loop_encodeMD5_loop) (simp_all add: p, simp_all add: Buffer_alloc_def)
  then show ?thesis
    using len l unfolding decodeMD5_def
    by (simp add: Let_def, simp add: encodeMD5_def n Let_def p stripTrailingNULs_zeros)
qed

text \<open>
  Claim C4, as amended. For every plain text \<open>p\<close> of 1 to 128 bytes whose last byte is
  not zero, every secret and every authenticator, \<open>decodeMD5\<close> applied to the result
  of \<open>encodeMD5\<close> returns the string that \<open>p\<close> decodes to. (For a \<open>p\<close> that ends in
  zero bytes the result is the string of \<open>p\<close> without them: lemma
  \<open>decodeMD5_encodeMD5\<close>.)
\<close>

theorem decodeMD5_encodeMD5_roundtrip:
  assumes "1 \<le> length p" and "length p \<le> 128" and "last p \<noteq> 0"
  shows "decodeMD5 H dec (encodeMD5 H p secret auth) (Some secret) auth =
         Inr (Buffer_toString dec p)"
  using assms by (simp add: decodeMD5_encodeMD5 stripTrailingNULs_id)

text \<open>The password \<open>mypass\<close> under the secret \<open>secret\<close> and the zero authenticator.\<close>

theorem decodeMD5_encodeMD5_roundtrip_witness:
  "decodeMD5 sample_digest (utf8_decode sample_node)
     (encodeMD5 sample_digest [0x6d, 0x79, 0x70, 0x61, 0x73, 0x73]
        [0x73, 0x65, 0x63, 0x72, 0x65, 0x74] zero_authenticator)
     (Some [0x73, 0x65, 0x63, 0x72, 0x65, 0x74]) zero_authenticator = Inr ''mypass''"
proof -
  have e: "Buffer_toString (utf8_decode sample_node) [0x6d, 0x79, 0x70, 0x61, 0x73, 0x73] =
           ''mypass''"
    by code_simp
  show ?thesis
    using decodeMD5_encodeMD5_roundtrip [of "[0x6d, 0x79, 0x70, 0x61, 0x73, 0x73]" sample_digest
      "utf8_decode sample_node" "[0x73, 0x65, 0x63, 0x72, 0x65, 0x74]" zero_authenticator]
    by (simp add: e)
qed

text \<open>
  Claim C4 as stated fails for the two bytes \<open>0x61 0x00\<close>: the transform gives back
  the string \<open>a\<close>, not the two characters the plain text decodes to. The stripping
  of the padding removes every trailing zero byte, those of the plain text too.
\<close>

theorem decodeMD5_trailing_zero_counterexample:
  "decodeMD5 sample_digest (utf8_decode sample_node)
     (encodeMD5 sample_digest [0x61, 0x00] [0x73] zero_authenticator)
     (Some [0x73]) zero_authenticator = Inr ''a''
   \<and> decodeMD5 sample_digest (utf8_decode sample_node)
     (encodeMD5 sample_digest [0x61, 0x00] [0x73] zero_authenticator)
     (Some [0x73]) zero_authenticator \<noteq> Inr (Buffer_toString (utf8_decode sample_node) [0x61, 0x00])"
proof -
  have "Buffer_toString (utf8_decode sample_node) (stripTrailingNULs [0x61, 0x00]) = ''a''"
    by code_simp
  moreover have "Buffer_toString (utf8_decode sample_node) [0x61, 0x00] = [CHR ''a'', CHR 0x00]"
    by code_simp
  ultimately show ?thesis
    by (simp add: decodeMD5_encodeMD5)
qed

section \<open>Properties of the codes and of the default response\<close>

lemma Code_properties_eq:
  "Code_properties =
    [(''1'', Code 1), (''ACCESS_REQUEST'', Code 1), (''2'', Code 2),
     (''ACCESS_ACCEPT'', Code 2), (''3'', Code 3), (''ACCESS_REJECT'', Code 3),
     (''4'', Code 4), (''ACCOUNTING_REQUEST'', Code 4), (''5'', Code 5),
     (''ACCOUNTING_RESPONSE'', Code 5), (''11'', Code 11),
     (''ACCESS_CHALLENGE'', Code 11), (''12'', Code 12),
     (''STATUS_SERVER'', Code 12), (''13'', Code 13),
     (''STATUS_CLIENT'', Code 13), (''40'', Code 40),
     (''DISCONNECT_REQUEST'', Code 40), (''41'', Code 41),
     (''DISCONNECT_ACK'', Code 41), (''42'', Code 42),
     (''DISCONNECT_NAK'', Code 42), (''43'', Code 43),
     (''COA_REQUEST'', Code 43), (''44'', Code 44), (''COA_ACK'', Code 44),
     (''45'', Code 45), (''COA_NAK'', Code 45)]"
  by code_simp

text \<open>The class has a property \<open>STATUS_SERVER\<close> and none called \<open>SERVER_STATUS\<close>.\<close>

lemma Code_get_simps:
  "Code_get ''ACCESS_REQUEST'' = Some (Code 1)"
  "Code_get ''ACCESS_REJECT'' = Some (Code 3)"
  "Code_get ''ACCESS_ACCEPT'' = Some (Code 2)"
  "Code_get ''ACCOUNTING_REQUEST'' = Some (Code 4)"
  "Code_get ''ACCOUNTING_RESPONSE'' = Some (Code 5)"
  "Code_get ''STATUS_SERVER'' = Some (Code 12)"
  "Code_get ''SERVER_STATUS'' = None"
  by (simp_all add: Code_get_def Code_properties_eq)

lemma default_code_Access_Request:
  "pkt_code req = Code 1 \<Longrightarrow> default_code Auth req = Some (Code 3)"
  by (simp add: default_code_def Code_get_simps)

lemma default_code_Accounting_Request:
  "pkt_code req = Code 4 \<Longrightarrow> default_code Acct req = Some (Code 5)"
  by (simp add: default_code_def Code_get_simps)

lemma default_code_Status_Server: "pkt_code req = Code 12 \<Longrightarrow> default_code t req = None"
  by (cases t) (simp_all add: default_code_def Code_get_simps)

lemma defaultResponse_Status_Server:
  "pkt_code req = Code 12 \<Longrightarrow> defaultResponse nd D t req = Inr (None, D)"
  by (simp add: defaultResponse_def default_code_Status_Server)

lemma getResponse_Status_Server:
  "pkt_code req = Code 12 \<Longrightarrow> getResponse nd D t req hs = Inr None"
  by (simp add: getResponse_def defaultResponse_Status_Server)

lemma parseAttributes_loop_done:
  "length buf \<le> n \<Longrightarrow>
   parseAttributes_loop nd secret auth buf n as D = Some (Inr (as, buf, D))"
  by (subst parseAttributes_loop.simps) simp

lemma Number_toString_12: "Number_toString 12 = ''12''"
  by code_simp

lemma fromWire_status_server:
  "RadiusPacket_fromWire nd D status_server_datagram secret =
   Some (Inr (\<lparr>pkt_code = Code 12, pkt_identifier = 7, pkt_authenticator = zero_authenticator,
               pkt_attributes = AttributeList_new [] True, frozen = True\<rparr>,
              status_server_datagram, D))"
  by (simp add: RadiusPacket_fromWire_def status_server_datagram_def zero_authenticator_def
      readUIntBE_def slice_def Let_def
      AttributeList_fromWire_def parseAttributes_def parseAttributes_loop_done
      Number_toString_12 Code_get_def Code_properties_eq RadiusPacket_new_def)

text \<open>
  Claim C2 (a Status-Server request on the auth socket is answered with Access-Accept)
  fails on the code. \<open>defaultResponse\<close> compares the request code with the property
  \<open>Code.SERVER_STATUS\<close>, which does not exist (the property is \<open>STATUS_SERVER\<close>, as
  \<open>getResponse\<close> spells it), so no response is built: for a Status-Server datagram
  from a registered client the listener sends nothing, whatever the handlers are.
\<close>

theorem Status_Server_gets_no_response:
  "on_message nd D
     \<lparr>clients = (\<lambda>a. if a = ''127.0.0.1'' then Some ''secret'' else None), handlers = hs,
      debug = dbg\<rparr>
     Auth status_server_datagram (''127.0.0.1'', port) = Some []"
  by (simp add: on_message_def fromWire_status_server getResponse_Status_Server)

section \<open>Properties of the attribute parser\<close>

text \<open>With one or two bytes left the loop of \<open>parseAttributes\<close> changes nothing and
  repeats: no run from such a state returns.\<close>

lemma parseAttributes_loop_stuck_aux:
  assumes "parseAttributes_loop nd secret auth buf n as D = Some y"
  shows "\<not> (n < length buf \<and> length buf - n \<le> 2)"
proof (rule parseAttributes_loop.raw_induct
    [where P = "\<lambda>nd secret auth buf n as D y. \<not> (n < length buf \<and> length buf - n \<le> 2)",
      OF _ assms])
  fix loop :: "node \<Rightarrow> buffer option \<Rightarrow> buffer \<Rightarrow> buffer \<Rightarrow> nat \<Rightarrow> Attribute list \<Rightarrow> Dictionary
     \<Rightarrow> (error + Attribute list \<times> buffer \<times> Dictionary) option"
  fix nd secret auth buf n as D y
  assume ih: "\<And>nd secret auth buf n as D y. loop nd secret auth buf n as D = Some y \<Longrightarrow>
    \<not> (n < length buf \<and> length buf - n \<le> 2)"
  assume body: "(if n < length buf
      then if 2 < length buf - n
           then case Attribute_fromWire nd D (slice buf n (n + unat (buf ! (n + 1)))) secret auth of
                Inl e \<Rightarrow> Some (Inl e)
                | Inr (attr, data', D') \<Rightarrow>
                    loop nd secret auth (copy data' buf n) (n + unat (buf ! (n + 1))) (as @ [attr]) D'
           else loop nd secret auth buf n as D
      else Some (Inr (as, buf, D))) = Some y"
  show "\<not> (n < length buf \<and> length buf - n \<le> 2)"
  proof
    assume s: "n < length buf \<and> length buf - n \<le> 2"
    with body have "loop nd secret auth buf n as D = Some y" by simp
    from ih [OF this] s show False by simp
  qed
qed

lemma parseAttributes_loop_stuck:
  "n < length buf \<Longrightarrow> length buf - n \<le> 2 \<Longrightarrow>
   parseAttributes_loop nd secret auth buf n as D = None"
  by (cases "parseAttributes_loop nd secret auth buf n as D")
     (auto dest: parseAttributes_loop_stuck_aux)

lemma length_short_tail_datagram: "length short_tail_datagram = 21"
  by (simp add: short_tail_datagram_def zero_authenticator_def)

text \<open>
  Claim C3 (\<open>AttributeList.fromWire\<close> terminates for every buffer and offset, and
  discards a short tail) fails on the code: with one byte after the header the call
  never returns. The guard \<open>len - n > 2\<close> skips the tail, but nothing ends the loop.
\<close>

theorem fromWire_short_tail_never_returns:
  "AttributeList_fromWire nd D short_tail_datagram 20 secret auth = None"
  by (simp add: AttributeList_fromWire_def parseAttributes_def parseAttributes_loop_stuck
      length_short_tail_datagram)

lemma RadiusPacket_fromWire_short_tail:
  "RadiusPacket_fromWire nd D short_tail_datagram secret = None"
proof -
  have "readUIntBE short_tail_datagram 2 2 = 21"
    by (simp add: readUIntBE_def slice_def short_tail_datagram_def)
  then show ?thesis
    by (simp add: RadiusPacket_fromWire_def Let_def length_short_tail_datagram
        AttributeList_fromWire_def parseAttributes_def parseAttributes_loop_stuck)
qed

section \<open>Properties of the attribute values\<close>

text \<open>
  Claim C6 (\<open>AInet4.fromValue\<close> fails for every string with an empty segment) fails on
  the code: \<open>Number('')\<close> is 0, so an empty segment passes the range check. The string
  \<open>1..2.3\<close> is accepted, as the address 1.0.2.3.
\<close>

theorem AInet4_fromValue_empty_segment:
  "AInet4_fromValue nd (VString ''1..2.3'') = Inr (BufferValue AInet4 [1, 0, 2, 3])"
  by (simp add: AInet4_fromValue_def trim_def is_space_def split_dot_def Number_of_string_def
      is_digit_def decimal_def fromBuffer_def bufferCheck_def is_ANumeric_def)

text \<open>The same call on the sample platform.\<close>

theorem AInet4_fromValue_empty_segment_witness:
  "AInet4_fromValue sample_node (VString ''1..2.3'') = Inr (BufferValue AInet4 [1, 0, 2, 3])"
  using AInet4_fromValue_empty_segment [of sample_node] .

section \<open>Properties of the server\<close>

text \<open>
  Claim C10. For a handler that is an object (or a function) with a property \<open>auth\<close>
  or \<open>acct\<close> that is not a function, \<open>use\<close> does not throw: it returns a
  \<open>TypeError\<close> as a value, and the state, with the list of handlers, is the one
  before the call.
\<close>

theorem use_returns_TypeError:
  assumes "h = JObject ps \<or> h = JFunction f ps"
    and "(\<exists>v. map_of ps ''auth'' = Some v \<and> typeof v \<noteq> ''function'') \<or>
         (\<exists>v. map_of ps ''acct'' = Some v \<and> typeof v \<noteq> ''function'')"
  shows "\<exists>m. use st h = Inr (ReturnsError (TypeError m), st)"
  using assms by (auto simp: use_def has_property_def get_property_def)

theorem use_returns_TypeError_witness:
  "\<exists>m. use \<lparr>clients = (\<lambda>a. None), handlers = [], debug = True\<rparr>
          (JObject [(''auth'', JString ''not a function'')]) =
        Inr (ReturnsError (TypeError m), \<lparr>clients = (\<lambda>a. None), handlers = [], debug = True\<rparr>)"
  using use_returns_TypeError [of "JObject [(''auth'', JString ''not a function'')]"
      "[(''auth'', JString ''not a function'')]" undefined
      "\<lparr>clients = (\<lambda>a. None), handlers = [], debug = True\<rparr>"]
  by simp

section \<open>Properties of the authenticator of a packet\<close>

text \<open>
  Claim C5 (the authenticator is copied on set) fails on the code. The constructor
  keeps the buffer it is given, and the getter returns a view of the same memory: after
  \<open>a[0] = 255\<close> on the buffer \<open>a\<close> the packet was built with, the accessor of the
  packet returns 255 as its first byte, where it returned 0 before.
\<close>

theorem authenticator_follows_the_buffer:
  "packet_object_new (Code 1) 10 \<lparr>v_mem = 0, v_off = 0, v_len = 16\<rparr> =
     Inr \<lparr>po_code = Code 1, po_identifier = 10,
          po_authenticator = \<lparr>v_mem = 0, v_off = 0, v_len = 16\<rparr>\<rparr>
   \<and> view_bytes (\<lambda>a. Buffer_alloc 16)
        (get_authenticator \<lparr>po_code = Code 1, po_identifier = 10,
                              po_authenticator = \<lparr>v_mem = 0, v_off = 0, v_len = 16\<rparr>\<rparr>)
       = [0, 0, 0, 0, 0, 0, 0, 0, 0, 0, 0, 0, 0, 0, 0, 0]
   \<and> view_bytes (view_set (\<lambda>a. Buffer_alloc 16) \<lparr>v_mem = 0, v_off = 0, v_len = 16\<rparr> 0 255)
        (get_authenticator \<lparr>po_code = Code 1, po_identifier = 10,
                              po_authenticator = \<lparr>v_mem = 0, v_off = 0, v_len = 16\<rparr>\<rparr>)
       = [255, 0, 0, 0, 0, 0, 0, 0, 0, 0, 0, 0, 0, 0, 0, 0]"
  by (simp add: packet_object_new_def parseAuthenticator_def get_authenticator_def view_slice_def
      view_bytes_def view_set_def set_byte_def Buffer_alloc_def numeral_eq_Suc)

section \<open>Properties of the dictionary\<close>

lemma octets_type: "map_of typeMap (if is_octets_n (toLowerCase ''octets'') then ''octets'' else toLowerCase ''octets'') = Some ABuffer"
  by code_simp

lemma DictionaryEntry_new_octets:
  "DictionaryEntry_new r vo name i ''octets'' fl =
     Inr (case vo of
            None \<Rightarrow> \<lparr>ent_ref = r, ent_name = name, ent_id = i, sub_id = None,
                       ent_vendor = None, ent_type = ABuffer, sub_type = None, flags = fl\<rparr>
          | Some v \<Rightarrow> \<lparr>ent_ref = r, ent_name = name, ent_id = 26, sub_id = Some i,
                       ent_vendor = Some v, ent_type = AVSA, sub_type = Some ABuffer, flags = fl\<rparr>)"
  using octets_type by (simp add: DictionaryEntry_new_def Let_def split: option.splits)

lemma get_idem:
  assumes "get D k = Inr (r, D')"
  shows "r \<noteq> None \<and> get D' k = Inr (r, D')"
proof (cases k)
  case (KNum i)
  show ?thesis
  proof (cases "dict D (KNum i)")
    case None
    with assms KNum show ?thesis
      by (auto simp: get_def addAttributeSpec_def DictionaryEntry_new_octets Let_def
          split: if_splits)
  next
    case (Some e)
    with assms KNum have "D' = D" "r = Some e" "\<not> (i < 1 \<or> i > 255)"
      by (auto simp: get_def split: if_splits)
    with Some KNum show ?thesis by (simp add: get_def)
  qed
next
  case (KStr name)
  show ?thesis
  proof (cases "dict D (KStr (toLowerCase name))")
    case None
    with assms KStr show ?thesis by (simp add: get_def Let_def)
  next
    case (Some e)
    with assms KStr have "D' = D" "r = Some e" by (auto simp: get_def Let_def)
    with Some KStr show ?thesis by (simp add: get_def Let_def)
  qed
qed

lemma vendor_idem:
  assumes "vendor D i = Inr (r, D')"
  shows "r \<noteq> None \<and> vendor D' i = Inr (r, D')"
proof (cases "vendors D (KNum i)")
  case None
  with assms show ?thesis
    by (auto simp: vendor_def addVendor_def Vendor_new_def Let_def split: if_splits sum.splits)
next
  case (Some v)
  with assms have "D' = D" "r = Some v" by (auto simp: vendor_def)
  with Some show ?thesis by (simp add: vendor_def)
qed

lemma vsa_idem:
  assumes "vsa D vi si = Inr (r, D')"
  shows "r \<noteq> None \<and> vsa D' vi si = Inr (r, D')"
proof -
  from assms obtain v D1 where v: "vendor D vi = Inr (Some v, D1)"
    by (auto simp: vsa_def split: sum.splits option.splits prod.splits)
  then have v1: "vendor D1 vi = Inr (Some v, D1)" using vendor_idem by blast
  from assms v obtain m where m: "vsas D1 (vendor_id v) = Some m"
    by (auto simp: vsa_def split: sum.splits option.splits prod.splits)
  show ?thesis
  proof (cases "m si")
    case (Some e)
    with assms v m have "D' = D1" "r = Some e" by (auto simp: vsa_def)
    with v1 m Some show ?thesis by (auto simp: vsa_def)
  next
    case None
    with assms v m have
      D': "addAttributeSpec D1 (Some v) (vendor_name v @ ''-Unknown-Attribute-'' @ Number_toString si)
             si ''octets'' [] = Inr D'"
      and r: "r = (case vsas D' (vendor_id v) of Some m' \<Rightarrow> m' si | None \<Rightarrow> None)"
      by (auto simp: vsa_def split: sum.splits)
    from D' m have vs: "vendors D' = vendors D1"
      and m': "vsas D' (vendor_id v) = Some (m(si \<mapsto> the r))" and rr: "r \<noteq> None"
      unfolding r
      by (auto simp: addAttributeSpec_def DictionaryEntry_new_octets Let_def)
    from v1 vs have "vendor D' vi = Inr (Some v, D')"
      by (auto simp: vendor_def split: if_splits sum.splits)
    with m' rr show ?thesis by (auto simp: vsa_def)
  qed
qed

lemma get_number_returns:
  assumes "1 \<le> i" "i \<le> 255"
  shows "\<exists>e D'. get D (KNum i) = Inr (Some e, D')"
proof (cases "dict D (KNum i)")
  case None
  with assms show ?thesis
    by (simp add: get_def addAttributeSpec_def DictionaryEntry_new_octets Let_def)
next
  case (Some e)
  with assms show ?thesis by (simp add: get_def)
qed

lemma vendor_returns:
  assumes "0 \<le> i" "i < 2 ^ 32"
  shows "\<exists>v D'. vendor D i = Inr (Some v, D') \<and> vsas D' i \<noteq> None \<and> vendor_id v = i
         \<or> (vendors D (KNum i) \<noteq> None \<and> vendor D i = Inr (vendors D (KNum i), D))"
proof (cases "vendors D (KNum i)")
  case None
  with assms show ?thesis
    by (simp add: vendor_def addVendor_def Vendor_new_def Let_def)
next
  case (Some v)
  then show ?thesis by (simp add: vendor_def)
qed

text \<open>On the state the module starts with, and a vendor number that fits 32 bits.\<close>

lemma vsa_returns_empty:
  assumes "0 \<le> vi" "vi < 2 ^ 32"
  shows "\<exists>e D'. vsa empty_Dictionary vi si = Inr (Some e, D')"
  using assms
  by (simp add: vsa_def vendor_def addVendor_def Vendor_new_def empty_Dictionary_def Let_def
      addAttributeSpec_def DictionaryEntry_new_octets)

text \<open>
  Claim C7. Whenever \<open>Dictionary.get\<close>, \<open>Dictionary.vendor\<close> or
  \<open>Dictionary.vsa\<close> returns, it returns an object (not \<open>undefined\<close>), and the
  same call repeated at once returns the identical object, the one with the same
  address, and leaves the dictionary as it is: so does every later repetition. This
  covers the entries and vendors made up at the first lookup of an unknown number.
  (\<open>get\<close> returns for every number in 1..255 and \<open>vendor\<close> for every number
  that fits 32 bits: the lemmas above.)
\<close>

theorem Dictionary_lookups_idempotent:
  "(get D k = Inr (e, D1) \<longrightarrow> e \<noteq> None \<and> get D1 k = Inr (e, D1)) \<and>
   (vendor D i = Inr (v, D2) \<longrightarrow> v \<noteq> None \<and> vendor D2 i = Inr (v, D2)) \<and>
   (vsa D vi si = Inr (e', D3) \<longrightarrow> e' \<noteq> None \<and> vsa D3 vi si = Inr (e', D3))"
  using get_idem vendor_idem vsa_idem by blast

text \<open>The lookups of the tests, on the dictionary the module starts with: attribute
  254, vendor 100, and sub-attribute 10 of vendor 100.\<close>

theorem Dictionary_lookups_idempotent_witness:
  "(\<exists>e D1. get empty_Dictionary (KNum 254) = Inr (Some e, D1)
            \<and> get D1 (KNum 254) = Inr (Some e, D1)) \<and>
   (\<exists>v D2. vendor empty_Dictionary 100 = Inr (Some v, D2)
            \<and> vendor D2 100 = Inr (Some v, D2)) \<and>
   (\<exists>e D3. vsa empty_Dictionary 100 10 = Inr (Some e, D3)
            \<and> vsa D3 100 10 = Inr (Some e, D3))"
proof -
  obtain e D1 where 1: "get empty_Dictionary (KNum 254) = Inr (Some e, D1)"
    using get_number_returns [of 254 empty_Dictionary] by auto
  obtain v D2 where 2: "vendor empty_Dictionary 100 = Inr (Some v, D2)"
    using vendor_returns [of 100 empty_Dictionary] by (auto simp: empty_Dictionary_def)
  obtain e' D3 where 3: "vsa empty_Dictionary 100 10 = Inr (Some e', D3)"
    using vsa_returns_empty [of 100 10] by auto
  from Dictionary_lookups_idempotent
    [of empty_Dictionary "KNum 254" "Some e" D1 100 "Some v" D2 100 10 "Some e'" D3] 1 2 3
  show ?thesis by simp
qed

section \<open>Properties of \<open>Attribute.toWire\<close>\<close>

lemma length_be_bytes [simp]: "length (be_bytes n v) = n"
  by (simp add: be_bytes_def)

lemma length_copy [simp]: "length (copy src buf off) = length buf"
  by (auto simp: copy_def)

lemma be_bytes_1: "be_bytes 1 v = [of_nat v]" "be_bytes (Suc 0) v = [of_nat v]"
  by (simp_all add: be_bytes_def)

lemma writeUIntBE_nat_Inr:
  "writeUIntBE buf (int x) off n = Inr (b, off') \<Longrightarrow>
   b = copy (be_bytes n x) buf off \<and> off' = off + n \<and> x < 2 ^ (8 * n)"
  by (auto simp: writeUIntBE_def nat_less_iff split: if_splits)

lemma writeUIntBE_int_Inr:
  "writeUIntBE buf v off n = Inr (b, off') \<Longrightarrow>
   b = copy (be_bytes n (nat v)) buf off \<and> off' = off + n \<and> 0 \<le> v \<and> v < 2 ^ (8 * n)"
  by (auto simp: writeUIntBE_def split: if_splits)

lemma copy_copy_append:
  "off + length s1 + length s2 \<le> length buf \<Longrightarrow>
   copy s2 (copy s1 buf off) (off + length s1) = copy (s1 @ s2) buf off"
  by (simp add: copy_def ac_simps)

lemma slice_copy:
  "off + length w \<le> length buf \<Longrightarrow> slice (copy w buf off) off (off + length w) = w"
  by (simp add: slice_def copy_def)

lemma DictionaryEntry_new_vendor:
  "DictionaryEntry_new r (Some v) name i ty fl = Inr d \<Longrightarrow>
   ent_vendor d = Some v \<and> ent_id d = 26 \<and> sub_id d = Some i \<and> ent_type d = AVSA"
  by (auto simp: DictionaryEntry_new_def Let_def split: option.splits)

lemma word_of_int_nat: "0 \<le> v \<Longrightarrow> (of_nat (nat v) :: byte) = word_of_int v"
  by simp

lemma Attribute_toWire_Inr:
  assumes w: "Attribute_toWire nd a buf off secret auth = Inr (buf', off')"
  shows "buf' = copy (wire_image nd a secret auth) buf off
         \<and> off' = off + length (wire_image nd a secret auth)
         \<and> off' < length buf
         \<and> fits_fields nd a secret auth"
proof -
  let ?d = "attr_dict a"
  let ?data = "wire_data nd a secret auth"
  let ?W = "wire_image nd a secret auth"
  from w obtain abuf where ab: "toBuffer (avalue a) = Inr abuf"
    by (auto simp: Attribute_toWire_def split: sum.splits)
  then have data: "?data = (if flags_encrypt ?d = Some 1
                            then encodeMD5 (digest nd) abuf secret auth else abuf)"
    by (simp add: wire_data_def)
  show ?thesis
  proof (cases "ent_vendor ?d")
    case None
    let ?M = "2 + length ?data + 0"
    from w ab data None have fit: "off + ?M < length buf"
      by (auto simp: Attribute_toWire_def Let_def split: if_splits)
    from w ab data None fit obtain b1 o1 b2 o2 where
      s1: "writeUIntBE buf (ent_id ?d) off 1 = Inr (b1, o1)" and
      s2: "writeUIntBE b1 (int ?M) o1 1 = Inr (b2, o2)" and
      s6: "buf' = copy ?data b2 o2" "off' = o2 + length ?data"
      by (auto simp: Attribute_toWire_def Let_def split: if_splits sum.splits prod.splits)
    let ?w1 = "be_bytes 1 (nat (ent_id ?d))"
    let ?w2 = "?w1 @ be_bytes 1 ?M"
    let ?w3 = "?w2 @ ?data"
    note r1 = writeUIntBE_int_Inr [OF s1]
    note r2 = writeUIntBE_nat_Inr [OF s2]
    have c2: "copy (be_bytes 1 ?M) (copy ?w1 buf off) (off + length ?w1) = copy ?w2 buf off"
      using fit by (intro copy_copy_append) simp
    have c3: "copy ?data (copy ?w2 buf off) (off + length ?w2) = copy ?w3 buf off"
      using fit by (intro copy_copy_append) simp
    from r1 r2 c2 have b2: "b2 = copy ?w2 buf off" "o2 = off + length ?w2" by simp_all
    with s6 c3 have b3: "buf' = copy ?w3 buf off" "off' = off + length ?w3" by simp_all
    have W: "?W = ?w3"
      using None r1 by (simp add: wire_image_def Let_def be_bytes_1)
    have "fits_fields nd a secret auth"
      using None r1 r2 ab by (simp add: fits_fields_def Let_def W)
    with b3 W fit show ?thesis by simp
  next
    case (Some v)
    let ?M = "2 + length ?data + (4 + typeSize v + lengthSize v)"
    from w ab data Some have fit: "off + ?M < length buf"
      by (auto simp: Attribute_toWire_def Let_def split: if_splits)
    from w ab data Some fit obtain b1 o1 b2 o2 b3 o3 s b4 o4 b5 o5 where
      s1: "writeUIntBE buf (ent_id ?d) off 1 = Inr (b1, o1)" and
      s2: "writeUIntBE b1 (int ?M) o1 1 = Inr (b2, o2)" and
      s3: "writeUIntBE b2 (vendor_id v) o2 4 = Inr (b3, o3)" and
      sid: "sub_id ?d = Some s" and
      s4: "writeUIntBE b3 s o3 (typeSize v) = Inr (b4, o4)" and
      s5: "(if lengthSize v \<noteq> 0
            then writeUIntBE b4 (int (min (length ?data) 255)) o4 (lengthSize v)
            else Inr (b4, o4)) = Inr (b5, o5)" and
      s6: "buf' = copy ?data b5 o5" "off' = o5 + length ?data"
      by (auto simp: Attribute_toWire_def Let_def
          split: if_splits sum.splits prod.splits option.splits)
    let ?w1 = "be_bytes 1 (nat (ent_id ?d))"
    let ?w2 = "?w1 @ be_bytes 1 ?M"
    let ?w3 = "?w2 @ be_bytes 4 (nat (vendor_id v))"
    let ?w4 = "?w3 @ be_bytes (typeSize v) (nat s)"
    let ?l = "if lengthSize v = 0 then [] else be_bytes (lengthSize v) (min (length ?data) 255)"
    let ?w5 = "?w4 @ ?l"
    let ?w6 = "?w5 @ ?data"
    note r1 = writeUIntBE_int_Inr [OF s1]
    note r2 = writeUIntBE_nat_Inr [OF s2]
    note r3 = writeUIntBE_int_Inr [OF s3]
    note r4 = writeUIntBE_int_Inr [OF s4]
    have c2: "copy (be_bytes 1 ?M) (copy ?w1 buf off) (off + length ?w1) = copy ?w2 buf off"
      using fit by (intro copy_copy_append) simp
    have c3: "copy (be_bytes 4 (nat (vendor_id v))) (copy ?w2 buf off) (off + length ?w2) =
              copy ?w3 buf off"
      using fit by (intro copy_copy_append) simp
    have c4: "copy (be_bytes (typeSize v) (nat s)) (copy ?w3 buf off) (off + length ?w3) =
              copy ?w4 buf off"
      using fit by (intro copy_copy_append) simp
    have c5: "copy ?l (copy ?w4 buf off) (off + length ?w4) = copy ?w5 buf off"
      using fit by (intro copy_copy_append) simp
    have c6: "copy ?data (copy ?w5 buf off) (off + length ?w5) = copy ?w6 buf off"
      using fit by (intro copy_copy_append) (simp split: if_splits)
    from r1 r2 c2 have b2: "b2 = copy ?w2 buf off" "o2 = off + length ?w2" by simp_all
    with r3 c3 have b3: "b3 = copy ?w3 buf off" "o3 = off + length ?w3" by simp_all
    with r4 c4 have b4: "b4 = copy ?w4 buf off" "o4 = off + length ?w4" by simp_all
    have b5: "b5 = copy ?w5 buf off \<and> o5 = off + length ?w5"
    proof (cases "lengthSize v = 0")
      case True
      with s5 have "b5 = b4" "o5 = o4" by simp_all
      with b4 True show ?thesis by (simp add: copy_def)
    next
      case False
      with s5 have
        "writeUIntBE b4 (int (min (length ?data) 255)) o4 (lengthSize v) = Inr (b5, o5)"
        by simp
      from writeUIntBE_nat_Inr [OF this] b4 c5 False show ?thesis by simp
    qed
    with s6 c6 have b6: "buf' = copy ?w6 buf off" "off' = off + length ?w6" by simp_all
    have W: "?W = ?w6"
      using Some sid r1 by (simp add: wire_image_def Let_def be_bytes_1 ac_simps)
    have lw: "length ?w6 = ?M" by simp
    have "fits_fields nd a secret auth"
      using Some sid r1 r2 r3 r4 ab unfolding fits_fields_def Let_def W lw by simp
    with b6 W fit lw show ?thesis by simp
  qed
qed


text \<open>
  Claim C9, as amended: for the calls of \<open>toWire\<close> that return. For an attribute
  whose entry the constructor built for a vendor \<open>v\<close>, with sub-id \<open>i\<close>, a
  \<open>toWire\<close> that returns has written, from the offset on: the byte 26, the length
  byte, the vendor id in four bytes, the sub-id in \<open>typeSize\<close> bytes, the
  sub-length \<open>min(|data|, 255)\<close> in \<open>lengthSize\<close> bytes (nothing when that is
  0), and the data. The length is \<open>2 + 4 + typeSize + lengthSize + |data|\<close>, is at
  most 255 (so the sub-length is \<open>|data|\<close>), and is what the offset advances by.
\<close>

theorem Attribute_toWire_VSA_layout:
  assumes d: "DictionaryEntry_new r (Some v) name i ty fl = Inr d"
    and ad: "attr_dict a = d"
    and b: "toBuffer (avalue a) = Inr abuf"
    and e: "data = (if flags_encrypt d = Some 1
                    then encodeMD5 (digest nd) abuf secret auth else abuf)"
    and w: "Attribute_toWire nd a buf offset secret auth = Inr (buf', offset')"
  shows "slice buf' offset offset' =
           [26, of_nat (2 + 4 + typeSize v + lengthSize v + length data)]
           @ be_bytes 4 (nat (vendor_id v)) @ be_bytes (typeSize v) (nat i)
           @ (if lengthSize v = 0 then [] else be_bytes (lengthSize v) (min (length data) 255))
           @ data
         \<and> 2 + 4 + typeSize v + lengthSize v + length data \<le> 255
         \<and> offset' = offset + (2 + 4 + typeSize v + lengthSize v + length data)"
proof -
  let ?W = "wire_image nd a secret auth"
  note t = Attribute_toWire_Inr [OF w]
  from DictionaryEntry_new_vendor [OF d] ad
  have dv: "ent_vendor (attr_dict a) = Some v" "ent_id (attr_dict a) = 26"
    "sub_id (attr_dict a) = Some i"
    by simp_all
  from b e ad have data: "wire_data nd a secret auth = data"
    by (simp add: wire_data_def)
  have W: "?W = [26, of_nat (2 + 4 + typeSize v + lengthSize v + length data)]
           @ be_bytes 4 (nat (vendor_id v)) @ be_bytes (typeSize v) (nat i)
           @ (if lengthSize v = 0 then [] else be_bytes (lengthSize v) (min (length data) 255))
           @ data"
    using dv data by (simp add: wire_image_def Let_def)
  have lW: "length ?W = 2 + 4 + typeSize v + lengthSize v + length data"
    unfolding W by simp
  from t have "slice buf' offset offset' = ?W"
    using slice_copy [of offset ?W buf] by simp
  moreover from t have "length ?W \<le> 255" by (simp add: fits_fields_def Let_def)
  moreover from t have "offset' = offset + length ?W" by simp
  ultimately show ?thesis unfolding lW unfolding W by simp
qed

lemma cisco_avpair_new:
  "DictionaryEntry_new 1 (Some cisco) ''Cisco-AVPair'' 1 ''string'' [] = Inr cisco_avpair"
  by (simp add: DictionaryEntry_new_def toLowerCase_def is_octets_n_def typeMap_def cisco_avpair_def Let_def)

lemma be_bytes_4: "be_bytes 4 v = [of_nat (v div 16777216), of_nat (v div 65536), of_nat (v div 256), of_nat v]"
  by (simp add: be_bytes_def upt_rec)

lemma Buffer_alloc_16: "Buffer_alloc 16 = [0, 0, 0, 0, 0, 0, 0, 0, 0, 0, 0, 0, 0, 0, 0, 0]"
  by (simp add: Buffer_alloc_def numeral_eq_Suc)

lemma xyzw_toWire:
  "Attribute_toWire sample_node xyzw (Buffer_alloc 16) 2 [] zero_authenticator =
   Inr ([0, 0, 26, 12, 0, 0, 0, 9, 1, 4, 0x78, 0x79, 0x7a, 0x77, 0, 0], 14)"
  by (simp add: Attribute_toWire_def xyzw_def cisco_avpair_def cisco_def flags_encrypt_def
      writeUIntBE_def copy_def Buffer_alloc_16 be_bytes_1 be_bytes_4 Let_def)

text \<open>The attribute \<open>xyzw\<close> of the vendor 9, written at offset 2 of 16 zero bytes.\<close>

theorem Attribute_toWire_VSA_layout_witness:
  "Attribute_toWire sample_node xyzw (Buffer_alloc 16) 2 [] zero_authenticator =
     Inr ([0, 0, 26, 12, 0, 0, 0, 9, 1, 4, 0x78, 0x79, 0x7a, 0x77, 0, 0], 14)
   \<and> slice [0, 0, 26, 12, 0, 0, 0, 9, 1, 4, 0x78, 0x79, 0x7a, 0x77, 0, 0] 2 14 =
       [26, 12, 0, 0, 0, 9, 1, 4, 0x78, 0x79, 0x7a, 0x77]"
proof -
  have b: "toBuffer (avalue xyzw) = Inr [0x78, 0x79, 0x7a, 0x77]"
    by (simp add: xyzw_def)
  have e: "[0x78, 0x79, 0x7a, 0x77] =
     (if flags_encrypt cisco_avpair = Some 1
      then encodeMD5 (digest sample_node) [0x78, 0x79, 0x7a, 0x77] [] zero_authenticator
      else [0x78, 0x79, 0x7a, 0x77 :: byte])"
    by (simp add: flags_encrypt_def cisco_avpair_def)
  have ad: "attr_dict xyzw = cisco_avpair" by (simp add: xyzw_def)
  from Attribute_toWire_VSA_layout [OF cisco_avpair_new ad b e xyzw_toWire]
  show ?thesis
    by (simp add: xyzw_toWire cisco_def be_bytes_1 be_bytes_4)
qed

text \<open>
  Claim C9 as stated fails for a value of 248 bytes, which the constructor accepts:
  the length \<open>2 + 4 + 1 + 1 + 248\<close> is 256, \<open>writeUInt8\<close> refuses it, and
  \<open>toWire\<close> throws after the byte 26 instead of writing the layout.
\<close>

theorem Attribute_toWire_long_VSA_counterexample:
  "Attribute_new sample_node sample_dictionary (IdEntry cisco_avpair) (VBuffer (replicate 248 0x61))
     = Inr (long_avpair, sample_dictionary)
   \<and> Attribute_toWire sample_node long_avpair (Buffer_alloc 4096) 20 sample_secret
         zero_authenticator
       = Inl (RangeError ''value is out of range'')"
proof -
  have n: "Attribute_new sample_node sample_dictionary (IdEntry cisco_avpair)
             (VBuffer (replicate 248 0x61)) = Inr (long_avpair, sample_dictionary)"
    by (simp add: Attribute_new_def fromBuffer_def bufferCheck_def realType_def cisco_avpair_def
        is_ANumeric_def long_avpair_def)
  have w: "Attribute_toWire sample_node long_avpair (Buffer_alloc 4096) 20 sample_secret
         zero_authenticator = Inl (RangeError ''value is out of range'')"
    by (simp add: Attribute_toWire_def long_avpair_def cisco_avpair_def cisco_def
        flags_encrypt_def writeUIntBE_def Buffer_alloc_def Let_def)
  from n w show ?thesis by simp
qed

section \<open>Properties of the values on the wire\<close>

lemma be_bytes_Suc: "be_bytes (Suc n) v = be_bytes n (v div 256) @ [of_nat v]"
proof -
  have "map (\<lambda>i. (of_nat (v div 256 ^ (Suc n - 1 - i)) :: byte)) [0..<n] =
        map (\<lambda>i. of_nat (v div 256 div 256 ^ (n - 1 - i))) [0..<n]"
  proof (rule map_cong [OF refl])
    fix i assume "i \<in> set [0..<n]"
    then have "Suc n - 1 - i = Suc (n - 1 - i)" by auto
    then show "(of_nat (v div 256 ^ (Suc n - 1 - i)) :: byte) =
               of_nat (v div 256 div 256 ^ (n - 1 - i))"
      by (simp add: div_mult2_eq)
  qed
  then show ?thesis by (simp add: be_bytes_def)
qed

lemma be_bytes_0 [simp]: "be_bytes 0 v = []"
  by (simp add: be_bytes_def)

lemma foldl_be_bytes:
  "foldl (\<lambda>acc x. 256 * acc + unat (x :: byte)) 0 (be_bytes n v) = v mod 256 ^ n"
proof (induction n arbitrary: v)
  case 0
  then show ?case by simp
next
  case (Suc n)
  have "unat (of_nat v :: byte) = v mod 256"
    by (simp add: unat_of_nat)
  then have "foldl (\<lambda>acc x. 256 * acc + unat (x :: byte)) 0 (be_bytes (Suc n) v) =
        256 * ((v div 256) mod 256 ^ n) + v mod 256"
    by (simp add: be_bytes_Suc Suc)
  also have "\<dots> = v mod 256 ^ Suc n"
    by (simp add: mod_mult2_eq)
  finally show ?case .
qed

lemma readUIntBE_be_bytes:
  "v < 2 ^ (8 * n) \<Longrightarrow> readUIntBE (pre @ be_bytes n v @ post) (length pre) n = v"
proof -
  assume "v < 2 ^ (8 * n)"
  then have "v < 256 ^ n" by (simp add: power_mult)
  then show ?thesis
    by (simp add: readUIntBE_def slice_def foldl_be_bytes)
qed

lemma value_roundtrip:
  assumes "value_of_class t av"
  shows "\<exists>b. toBuffer av = Inr b \<and> fromBuffer t (VBuffer b) = Inr av \<and> 1 \<le> length b \<and> length b \<le> 253"
proof (cases av)
  case (BufferValue t' b)
  with assms show ?thesis
    by (auto simp: fromBuffer_def bufferCheck_def split: if_splits)
next
  case (NumericValue t' v)
  with assms have t: "t' = t" "is_ANumeric t" and v: "v < 2 ^ (8 * static_length t)"
    by simp_all
  from t have sl: "1 \<le> static_length t" "static_length t \<le> 4"
    by (auto simp: is_ANumeric_def)
  have r: "readUIntBE (be_bytes (static_length t) v) 0 (static_length t) = v"
    using readUIntBE_be_bytes [OF v, of "[]" "[]"] by simp
  have rv: "real v < 2 ^ (8 * static_length t)"
    using v by (metis of_nat_less_iff of_nat_numeral of_nat_power)
  show ?thesis
    using t v sl r rv NumericValue
    by (simp add: writeUIntBE_def Buffer_alloc_def copy_def fromBuffer_def bufferCheck_def
        ANumeric_fromValue_def)
qed

lemma fromBuffer_value_of_class:
  assumes "fromBuffer t x = Inr av"
  shows "value_of_class t av"
proof -
  from assms obtain buf where bc: "bufferCheck t x = Inr buf"
    by (auto simp: fromBuffer_def split: sum.splits)
  show ?thesis
  proof (cases "is_ANumeric t")
    case True
    with assms bc show ?thesis
      by (auto simp: fromBuffer_def ANumeric_fromValue_def split: if_splits)
  next
    case False
    with assms bc show ?thesis
      by (auto simp: fromBuffer_def bufferCheck_def Suc_le_eq split: if_splits native.splits)
  qed
qed

text \<open>The constructor of an attribute gives it a value of the class of its entry.\<close>

lemma ANumeric_fromValue_value_of_class:
  assumes "ANumeric_fromValue t x = Inr av" "is_ANumeric t"
  shows "value_of_class t av"
  using assms
  by (auto simp: ANumeric_fromValue_def nat_less_iff split: native.splits if_splits jsnum.splits)

lemma fromValue_value_of_class:
  assumes "fromValue nd t x = Inr av"
  shows "value_of_class t av"
proof -
  consider (num) "is_ANumeric t" | (inet) "\<not> is_ANumeric t" "t = AInet4"
    | (str) "\<not> is_ANumeric t" "t \<noteq> AInet4" "t = AString"
    | (buf) "\<not> is_ANumeric t" "t \<noteq> AInet4" "t \<noteq> AString"
    by blast
  then show ?thesis
  proof cases
    case num
    with assms show ?thesis
      by (simp add: fromValue_def ANumeric_fromValue_value_of_class)
  next
    case inet
    with assms obtain b where "fromBuffer AInet4 (VBuffer b) = Inr av"
      by (auto simp: fromValue_def AInet4_fromValue_def Let_def
          split: native.splits if_splits)
    with inet show ?thesis by (simp add: fromBuffer_value_of_class)
  next
    case str
    with assms obtain b where "fromBuffer AString (VBuffer b) = Inr av"
      by (auto simp: fromValue_def split: native.splits)
    with str show ?thesis by (simp add: fromBuffer_value_of_class)
  next
    case buf
    with assms show ?thesis
      by (simp add: fromValue_def fromBuffer_value_of_class)
  qed
qed

lemma Attribute_new_value_of_class:
  assumes "Attribute_new nd D i v = Inr (a, D')"
  shows "value_of_class (realType (attr_dict a)) (avalue a)"
  using assms
  by (auto simp: Attribute_new_def fromBuffer_value_of_class fromValue_value_of_class
      split: sum.splits option.splits native.splits prod.splits)

section \<open>Properties of \<open>Attribute.fromWire\<close>\<close>

lemma get_registered:
  "dict D (KNum i) = Some d \<Longrightarrow> 1 \<le> i \<Longrightarrow> i \<le> 255 \<Longrightarrow> get D (KNum i) = Inr (Some d, D)"
  by (simp add: get_def)

lemma vendor_registered:
  "vendors D (KNum i) = Some v \<Longrightarrow> vendor D i = Inr (Some v, D)"
  by (simp add: vendor_def)

lemma vsa_registered:
  "vendors D (KNum i) = Some v \<Longrightarrow> vsas D (vendor_id v) = Some m \<Longrightarrow> m s = Some d
   \<Longrightarrow> vsa D i s = Inr (Some d, D)"
  by (simp add: vsa_def vendor_def)

lemma uint_word_of_int_byte: "0 \<le> i \<Longrightarrow> i \<le> 255 \<Longrightarrow> uint (word_of_int i :: byte) = i"
  by (simp add: uint_word_of_int)

lemma unat_of_nat_byte: "n \<le> 255 \<Longrightarrow> unat (of_nat n :: byte) = n"
  by (simp add: unat_of_nat)

lemma Attribute_fromWire_plain:
  assumes f: "fits_fields nd a secret auth0"
    and p: "plain_attribute D a"
    and nv: "ent_vendor (attr_dict a) = None"
  shows "Attribute_fromWire nd D (wire_image nd a secret auth0) sec auth
         = Inr (a, wire_image nd a secret auth0, D)"
proof -
  let ?d = "attr_dict a"
  let ?W = "wire_image nd a secret auth0"
  from p have voc: "value_of_class (realType ?d) (avalue a)" and ne: "flags_encrypt ?d = None"
    and reg: "registered D a"
    by (simp_all add: plain_attribute_def)
  from value_roundtrip [OF voc] obtain b where b: "toBuffer (avalue a) = Inr b"
    "fromBuffer (realType ?d) (VBuffer b) = Inr (avalue a)" "1 \<le> length b" "length b \<le> 253"
    by blast
  from b ne have wd: "wire_data nd a secret auth0 = b" by (simp add: wire_data_def)
  with nv have W: "?W = [word_of_int (ent_id ?d), of_nat (2 + length b)] @ b"
    by (simp add: wire_image_def)
  from reg nv have r: "1 \<le> ent_id ?d" "dict D (KNum (ent_id ?d)) = Some ?d" "\<not> isVSA ?d"
    by (simp_all add: registered_def Let_def)
  from f have id: "ent_id ?d \<le> 255" by (simp add: fits_fields_def Let_def)
  have g: "get D (KNum (uint (word_of_int (ent_id ?d) :: byte))) = Inr (Some ?d, D)"
    using r id by (simp add: uint_word_of_int_byte get_registered)
  have l: "unat (of_nat (2 + length b) :: byte) = 2 + length b"
    by (rule unat_of_nat_byte) (use b(4) in simp)
  have sl: "slice ?W 2 (length ?W) = b" by (simp add: W slice_def)
  have "Attribute_new nd D (IdEntry ?d) (VBuffer b) = Inr (a, D)"
    by (simp add: Attribute_new_def b)
  then show ?thesis
    unfolding Attribute_fromWire_def
    using g l r(3) ne sl
    by (simp add: W less_opt_def greater_opt_def minimumLength_def maximumLength_def slice_def)
qed


lemma Attribute_fromWire_vendor:
  assumes f: "fits_fields nd a secret auth0"
    and p: "plain_attribute D a"
    and sv: "ent_vendor (attr_dict a) = Some v"
  shows "\<exists>b'. Attribute_fromWire nd D (wire_image nd a secret auth0) sec auth = Inr (a, b', D)
              \<and> length b' = length (wire_image nd a secret auth0)"
proof -
  let ?d = "attr_dict a"
  let ?W = "wire_image nd a secret auth0"
  let ?ts = "typeSize v"
  let ?ls = "lengthSize v"
  from p have voc: "value_of_class (realType ?d) (avalue a)" and ne: "flags_encrypt ?d = None"
    and reg: "registered D a"
    by (simp_all add: plain_attribute_def)
  from value_roundtrip [OF voc] obtain b where b: "toBuffer (avalue a) = Inr b"
    "fromBuffer (realType ?d) (VBuffer b) = Inr (avalue a)" "1 \<le> length b" "length b \<le> 253"
    by blast
  from b ne have wd: "wire_data nd a secret auth0 = b" by (simp add: wire_data_def)
  from f sv obtain s where s: "sub_id ?d = Some s" "0 \<le> s" "s < 2 ^ (8 * ?ts)"
    and vid: "0 \<le> vendor_id v" "vendor_id v < 2 ^ 32"
    and lw: "length ?W \<le> 255"
    by (auto simp: fits_fields_def Let_def split: option.splits)
  let ?lf = "if ?ls = 0 then [] else be_bytes ?ls (min (length b) 255)"
  let ?data = "be_bytes 4 (nat (vendor_id v)) @ be_bytes ?ts (nat s) @ ?lf @ b"
  have W: "?W = [word_of_int (ent_id ?d), of_nat (6 + ?ts + ?ls + length b)] @ ?data"
    using sv wd s(1) by (simp add: wire_image_def)
  have lW: "length ?W = 6 + ?ts + ?ls + length b"
    by (simp add: W)
  from reg sv s(1) obtain e m where r: "ent_id ?d = 26" "dict D (KNum 26) = Some e" "isVSA e"
    "vendors D (KNum (vendor_id v)) = Some v" "vsas D (vendor_id v) = Some m" "m s = Some ?d"
    by (auto simp: registered_def Let_def split: option.splits)
  have g: "get D (KNum (uint (word_of_int (ent_id ?d) :: byte))) = Inr (Some e, D)"
    using r by (simp add: get_registered)
  have l: "unat (of_nat (6 + ?ts + ?ls + length b) :: byte) = 6 + ?ts + ?ls + length b"
    by (rule unat_of_nat_byte) (use lw lW in simp)
  have sl: "slice ?W 2 (length ?W) = ?data" by (simp add: W slice_def)
  have rv: "readUIntBE ?data 0 4 = nat (vendor_id v)"
    using readUIntBE_be_bytes [of "nat (vendor_id v)" 4 "[]" "be_bytes ?ts (nat s) @ ?lf @ b"] vid
    by simp
  have rs: "readUIntBE ?data 4 ?ts = nat s"
    using readUIntBE_be_bytes [of "nat s" ?ts "be_bytes 4 (nat (vendor_id v))" "?lf @ b"] s
    by (simp add: nat_less_iff)
  have rl: "?ls \<noteq> 0 \<Longrightarrow> readUIntBE ?data (4 + ?ts) ?ls = length b"
  proof -
    assume n0: "?ls \<noteq> 0"
    have "length b < 2 ^ (8 * ?ls)"
    proof -
      have "length b < 2 ^ 8" using b(4) by simp
      also have "(2::nat) ^ 8 \<le> 2 ^ (8 * ?ls)"
        using n0 by (intro power_increasing) simp_all
      finally show ?thesis .
    qed
    then show ?thesis
      using readUIntBE_be_bytes [of "length b" ?ls
          "be_bytes 4 (nat (vendor_id v)) @ be_bytes ?ts (nat s)" b] n0 b(4)
      by simp
  qed
  have ven: "vendor D (int (nat (vendor_id v))) = Inr (Some v, D)"
    using vid r by (simp add: vendor_registered)
  have vs: "vsa D (int (nat (vendor_id v))) (int (nat s)) = Inr (Some ?d, D)"
    using vid s r by (simp add: vsa_registered)
  have dl: "length ?data = 4 + ?ts + ?ls + length b" by simp
  have sd: "slice ?data (4 + ?ts + ?ls) (4 + ?ts + ?ls + length b) = b"
    by (simp add: slice_def)
  have sd0: "?ls = 0 \<Longrightarrow> slice ?data (4 + ?ts) (4 + ?ts + (length ?W - (4 + ?ts))) = b"
    using lW by (simp add: slice_def)
  define len where "len = 4 + ?ts + ?ls + (if ?ls \<noteq> 0 then length b else length ?W - (4 + ?ts))"
  have vsa_part: "fromWire_VSA D e ?W ?data = Inr (Some ?d, b, set_byte ?W 1 (of_nat len), D)"
  proof (cases "?ls = 0")
    case True
    then show ?thesis
      unfolding fromWire_VSA_def len_def
      using rv rs ven vs sd0 by (simp add: Let_def)
  next
    case False
    then show ?thesis
      unfolding fromWire_VSA_def len_def
      using rv rs rl ven vs sd by (simp add: Let_def)
  qed
  have new: "Attribute_new nd D (IdEntry ?d) (VBuffer b) = Inr (a, D)"
    by (simp add: Attribute_new_def b)
  have "Attribute_fromWire nd D ?W sec auth = Inr (a, set_byte ?W 1 (of_nat len), D)"
    unfolding Attribute_fromWire_def
    using g l r(3) ne sl vsa_part new lW
    by (simp add: less_opt_def greater_opt_def minimumLength_def maximumLength_def W)
  then show ?thesis by (simp add: length_set_byte)
qed

section \<open>Properties of the attribute list on the wire\<close>

lemma length_wire_image:
  "length (wire_image nd a secret auth) =
     2 + length (wire_data nd a secret auth)
     + (case ent_vendor (attr_dict a) of Some v \<Rightarrow> 4 + typeSize v + lengthSize v | None \<Rightarrow> 0)"
  by (simp add: wire_image_def Let_def split: option.splits)

lemma Attribute_toWire_overflow:
  assumes f: "fits_fields nd a secret auth"
    and o: "length buf \<le> off + length (wire_image nd a secret auth)"
  shows "Attribute_toWire nd a buf off secret auth
         = Inl (RangeError ''attributes will not fit in buffer'')"
proof -
  from f obtain abuf where ab: "toBuffer (avalue a) = Inr abuf"
    by (auto simp: fits_fields_def Let_def split: sum.splits)
  then have wd: "wire_data nd a secret auth =
      (if flags_encrypt (attr_dict a) = Some 1 then encodeMD5 (digest nd) abuf secret auth else abuf)"
    by (simp add: wire_data_def)
  from o show ?thesis
    unfolding Attribute_toWire_def length_wire_image wd
    by (simp add: ab Let_def)
qed

lemma Attribute_toWire_succeeds:
  assumes f: "fits_fields nd a secret auth"
    and o: "off + length (wire_image nd a secret auth) < length buf"
  shows "\<exists>r. Attribute_toWire nd a buf off secret auth = Inr r"
proof -
  let ?d = "attr_dict a"
  from f obtain abuf where ab: "toBuffer (avalue a) = Inr abuf"
    by (auto simp: fits_fields_def Let_def split: sum.splits)
  then have wd: "wire_data nd a secret auth =
      (if flags_encrypt ?d = Some 1 then encodeMD5 (digest nd) abuf secret auth else abuf)"
    by (simp add: wire_data_def)
  from f have id: "0 \<le> ent_id ?d" "ent_id ?d < 256" and lw: "length (wire_image nd a secret auth) < 256"
    by (simp_all add: fits_fields_def Let_def)
  show ?thesis
  proof (cases "ent_vendor ?d")
    case None
    with o id lw show ?thesis
      unfolding Attribute_toWire_def
      by (simp add: ab Let_def writeUIntBE_def length_wire_image wd)
  next
    case (Some v)
    with f obtain s where s: "sub_id ?d = Some s" "0 \<le> s" "s < 2 ^ (8 * typeSize v)"
      and vid: "0 \<le> vendor_id v" "vendor_id v < 2 ^ 32"
      by (auto simp: fits_fields_def Let_def split: option.splits)
    have m: "lengthSize v = 0 \<or> int (min (length (wire_data nd a secret auth)) 255) < 2 ^ (8 * lengthSize v)"
    proof (cases "lengthSize v = 0")
      case True
      then show ?thesis by simp
    next
      case n0: False
      have "int (min (length (wire_data nd a secret auth)) 255) < 2 ^ 8" by simp
      also have "(2::int) ^ 8 \<le> 2 ^ (8 * lengthSize v)"
        using n0 by (intro power_increasing) simp_all
      finally show ?thesis by simp
    qed
    show ?thesis
    proof (cases "flags_encrypt ?d = Some 1")
      case True
      with o id lw Some s vid m show ?thesis
        unfolding Attribute_toWire_def
        by (auto simp add: ab Let_def writeUIntBE_def length_wire_image wd)
    next
      case False
      with o id lw Some s vid m show ?thesis
        unfolding Attribute_toWire_def
        by (auto simp add: ab Let_def writeUIntBE_def length_wire_image wd)
    qed
  qed
qed

lemma Attribute_toWire_fits:
  assumes f: "fits_fields nd a secret auth"
    and o: "off + length (wire_image nd a secret auth) < length buf"
  shows "Attribute_toWire nd a buf off secret auth
         = Inr (copy (wire_image nd a secret auth) buf off, off + length (wire_image nd a secret auth))"
proof -
  from Attribute_toWire_succeeds [OF f o] obtain b' o' where
    r: "Attribute_toWire nd a buf off secret auth = Inr (b', o')" by auto
  from Attribute_toWire_Inr [OF r] r show ?thesis by simp
qed


lemma toWire_loop_Inr:
  assumes "toWire_loop nd as buf off secret auth = Inr (buf', off')"
    and "off \<le> length buf"
  shows "buf' = copy (wire_images nd as secret auth) buf off
         \<and> off' = off + length (wire_images nd as secret auth)
         \<and> off' \<le> length buf
         \<and> list_all (\<lambda>a. fits_fields nd a secret auth) as"
  using assms
proof (induction as arbitrary: buf off)
  case Nil
  then show ?case by (simp add: copy_def)
next
  case (Cons a as)
  let ?W = "wire_image nd a secret auth"
  from Cons.prems(1) obtain b1 o1 where
    a: "Attribute_toWire nd a buf off secret auth = Inr (b1, o1)"
    and l: "toWire_loop nd as b1 o1 secret auth = Inr (buf', off')"
    by (auto split: sum.splits)
  from Attribute_toWire_Inr [OF a] have
    b1: "b1 = copy ?W buf off" and o1: "o1 = off + length ?W" and lt: "o1 < length buf"
    and f: "fits_fields nd a secret auth"
    by simp_all
  have "o1 \<le> length b1" using lt b1 by simp
  from Cons.IH [OF l this] have
    ih: "buf' = copy (wire_images nd as secret auth) b1 o1"
      "off' = o1 + length (wire_images nd as secret auth)"
      "off' \<le> length b1"
      "list_all (\<lambda>a. fits_fields nd a secret auth) as"
    by simp_all
  have "off + length ?W + length (wire_images nd as secret auth) \<le> length buf"
    using ih(2,3) o1 b1 by simp
  from copy_copy_append [OF this] have
    "copy (wire_images nd as secret auth) (copy ?W buf off) (off + length ?W)
     = copy (?W @ wire_images nd as secret auth) buf off" .
  with ih b1 o1 f show ?case by simp
qed

lemma toWire_loop_fits:
  assumes "list_all (\<lambda>a. fits_fields nd a secret auth) as"
    and "off + length (wire_images nd as secret auth) < length buf"
  shows "toWire_loop nd as buf off secret auth
         = Inr (copy (wire_images nd as secret auth) buf off, off + length (wire_images nd as secret auth))"
proof -
  have "\<exists>r. toWire_loop nd as buf off secret auth = Inr r"
    using assms
  proof (induction as arbitrary: buf off)
    case Nil
    then show ?case by simp
  next
    case (Cons a as)
    let ?W = "wire_image nd a secret auth"
    from Cons.prems have f: "fits_fields nd a secret auth"
      and o: "off + length ?W < length buf" by simp_all
    note a = Attribute_toWire_fits [OF f o]
    have "\<exists>r. toWire_loop nd as (copy ?W buf off) (off + length ?W) secret auth = Inr r"
      using Cons.prems by (intro Cons.IH) (simp_all add: ac_simps)
    with a show ?case by simp
  qed
  then obtain b' o' where r: "toWire_loop nd as buf off secret auth = Inr (b', o')" by auto
  from assms(2) have "off \<le> length buf" by simp
  from toWire_loop_Inr [OF r this] r show ?thesis by simp
qed

lemma toWire_loop_overflow:
  assumes "list_all (\<lambda>a. fits_fields nd a secret auth) as"
    and "as \<noteq> []"
    and "length buf \<le> off + length (wire_images nd as secret auth)"
  shows "toWire_loop nd as buf off secret auth
         = Inl (RangeError ''attributes will not fit in buffer'')"
  using assms
proof (induction as arbitrary: buf off)
  case Nil
  then show ?case by simp
next
  case (Cons a as)
  let ?W = "wire_image nd a secret auth"
  from Cons.prems have f: "fits_fields nd a secret auth" by simp
  show ?case
  proof (cases "length buf \<le> off + length ?W")
    case True
    from Attribute_toWire_overflow [OF f True] show ?thesis by simp
  next
    case False
    then have o: "off + length ?W < length buf" by simp
    note a = Attribute_toWire_fits [OF f o]
    from o Cons.prems(3) have ne: "as \<noteq> []" by auto
    have "toWire_loop nd as (copy ?W buf off) (off + length ?W) secret auth
          = Inl (RangeError ''attributes will not fit in buffer'')"
      using Cons.prems ne by (intro Cons.IH) (simp_all add: ac_simps)
    with a show ?thesis by simp
  qed
qed

section \<open>Properties of the packet on the wire\<close>

lemma length_Buffer_alloc [simp]: "length (Buffer_alloc n) = n"
  by (simp add: Buffer_alloc_def)

lemma copy_at_0: "length s \<le> length Z \<Longrightarrow> copy s Z 0 = s @ drop (length s) Z"
  by (simp add: copy_def)

lemma header_patch:
  assumes "length x = 2" "length h = 2" "length m = 2" "length (h @ m @ t) \<le> length Z"
  shows "slice (copy x (copy (h @ m @ t) Z 0) 2) 0 (length (h @ m @ t)) = h @ x @ t"
  using assms by (simp add: copy_def slice_def)

lemma header_writes:
  assumes c: "c < 256" and i: "i < 256" and la: "length auth = 16"
  shows "\<exists>b3. writeUIntBE (Buffer_alloc 4096) (int c) 0 1 = Inr (copy [of_nat c] (Buffer_alloc 4096) 0, 1)
    \<and> writeUIntBE (copy [of_nat c] (Buffer_alloc 4096) 0) (int i) 1 1
        = Inr (copy [of_nat c, of_nat i] (Buffer_alloc 4096) 0, 2)
    \<and> writeUIntBE (copy [of_nat c, of_nat i] (Buffer_alloc 4096) 0) 0 2 2 = Inr (b3, 4)
    \<and> copy auth b3 4 = copy ([of_nat c, of_nat i] @ be_bytes 2 0 @ auth) (Buffer_alloc 4096) 0"
proof -
  let ?Z = "Buffer_alloc 4096"
  have 1: "writeUIntBE ?Z (int c) 0 1 = Inr (copy [of_nat c] ?Z 0, 1)"
    using c by (simp add: writeUIntBE_def be_bytes_1)
  have "copy [of_nat i] (copy [of_nat c] ?Z 0) 1 = copy [of_nat c, of_nat i] ?Z 0"
    by (simp add: copy_def)
  then have 2: "writeUIntBE (copy [of_nat c] ?Z 0) (int i) 1 1 = Inr (copy [of_nat c, of_nat i] ?Z 0, 2)"
    using i by (simp add: writeUIntBE_def be_bytes_1)
  have 3: "writeUIntBE (copy [of_nat c, of_nat i] ?Z 0) 0 2 2
                = Inr (copy (be_bytes 2 0) (copy [of_nat c, of_nat i] ?Z 0) 2, 4)"
    by (simp add: writeUIntBE_def)
  have 4: "copy auth (copy (be_bytes 2 0) (copy [of_nat c, of_nat i] ?Z 0) 2) 4
                = copy ([of_nat c, of_nat i] @ be_bytes 2 0 @ auth) ?Z 0"
    using la by (simp add: copy_def)
  from 1 2 3 4 show ?thesis by blast
qed


lemma RadiusPacket_toWire_eq:
  assumes c: "valueOf (pkt_code p) < 256" and i: "pkt_identifier p < 256"
    and la: "length (pkt_authenticator p) = 16"
  shows "RadiusPacket_toWire nd p secret resp =
     (case toWire_loop nd (attrs (pkt_attributes p))
             (copy ([of_nat (valueOf (pkt_code p)), of_nat (pkt_identifier p)] @ be_bytes 2 0
                    @ pkt_authenticator p) (Buffer_alloc 4096) 0)
             20 secret (pkt_authenticator p) of
        Inl e \<Rightarrow> Inl e
      | Inr (b4, len) \<Rightarrow>
          (case writeUIntBE b4 (int len) 2 2 of
             Inl e \<Rightarrow> Inl e
           | Inr (b5, o5) \<Rightarrow>
               (let b6 = slice b5 0 len
                in Inr (if resp then copy (digest nd (b6 @ secret)) b6 4 else b6))))"
proof -
  from header_writes [OF c i la] obtain b3 where
    1: "writeUIntBE (Buffer_alloc 4096) (int (valueOf (pkt_code p))) 0 1
        = Inr (copy [of_nat (valueOf (pkt_code p))] (Buffer_alloc 4096) 0, 1)"
    and 2: "writeUIntBE (copy [of_nat (valueOf (pkt_code p))] (Buffer_alloc 4096) 0)
              (int (pkt_identifier p)) 1 1
        = Inr (copy [of_nat (valueOf (pkt_code p)), of_nat (pkt_identifier p)] (Buffer_alloc 4096) 0, 2)"
    and 3: "writeUIntBE (copy [of_nat (valueOf (pkt_code p)), of_nat (pkt_identifier p)]
              (Buffer_alloc 4096) 0) 0 2 2 = Inr (b3, 4)"
    and 4: "copy (pkt_authenticator p) b3 4
        = copy ([of_nat (valueOf (pkt_code p)), of_nat (pkt_identifier p)] @ be_bytes 2 0
                @ pkt_authenticator p) (Buffer_alloc 4096) 0"
    by blast
  show ?thesis
    unfolding RadiusPacket_toWire_def AttributeList_toWire_def
    by (simp only: 1 2 3 4 sum.case prod.case) simp
qed

lemma packet_patch:
  assumes la: "length auth = 16" and lc: "20 + length C \<le> 4096"
  shows "\<exists>o5. writeUIntBE (copy C (copy ([c, i] @ be_bytes 2 0 @ auth) (Buffer_alloc 4096) 0) 20)
            (int (20 + length C)) 2 2
         = Inr (copy (be_bytes 2 (20 + length C)) (copy (([c, i] @ be_bytes 2 0 @ auth) @ C) (Buffer_alloc 4096) 0) 2, o5)
       \<and> slice (copy (be_bytes 2 (20 + length C)) (copy (([c, i] @ be_bytes 2 0 @ auth) @ C) (Buffer_alloc 4096) 0) 2) 0 (20 + length C)
         = [c, i] @ be_bytes 2 (20 + length C) @ auth @ C"
proof -
  let ?Z = "Buffer_alloc 4096"
  let ?h0 = "[c, i] @ be_bytes 2 0 @ auth"
  have "copy C (copy ?h0 ?Z 0) (0 + length ?h0) = copy (?h0 @ C) ?Z 0"
    by (rule copy_copy_append) (use la lc in simp)
  then have a: "copy C (copy ?h0 ?Z 0) 20 = copy (?h0 @ C) ?Z 0"
    using la by simp
  have w: "writeUIntBE (copy (?h0 @ C) ?Z 0) (int (20 + length C)) 2 2
         = Inr (copy (be_bytes 2 (20 + length C)) (copy (?h0 @ C) ?Z 0) 2, 4)"
  proof -
    have "nat (20 + int (length C)) = 20 + length C" by arith
    with lc show ?thesis by (simp add: writeUIntBE_def)
  qed
  have "slice (copy (be_bytes 2 (20 + length C)) (copy ([c, i] @ be_bytes 2 0 @ (auth @ C)) ?Z 0) 2) 0
          (length ([c, i] @ be_bytes 2 0 @ (auth @ C)))
        = [c, i] @ be_bytes 2 (20 + length C) @ (auth @ C)"
    by (rule header_patch) (use la lc in simp_all)
  then have s: "slice (copy (be_bytes 2 (20 + length C)) (copy (?h0 @ C) ?Z 0) 2) 0 (20 + length C)
        = [c, i] @ be_bytes 2 (20 + length C) @ auth @ C"
    using la by simp
  from a w s show ?thesis by simp
qed

lemma RadiusPacket_toWire_Inr:
  assumes w: "RadiusPacket_toWire nd p secret resp = Inr w"
    and la: "length (pkt_authenticator p) = 16"
  shows "w = (if resp then response_image nd p secret else request_image nd p secret)
         \<and> valueOf (pkt_code p) < 256 \<and> pkt_identifier p < 256
         \<and> 20 + length (wire_images nd (attrs (pkt_attributes p)) secret (pkt_authenticator p)) \<le> 4096
         \<and> list_all (\<lambda>a. fits_fields nd a secret (pkt_authenticator p)) (attrs (pkt_attributes p))"
proof -
  let ?as = "attrs (pkt_attributes p)"
  let ?auth = "pkt_authenticator p"
  let ?C = "wire_images nd ?as secret ?auth"
  let ?c = "of_nat (valueOf (pkt_code p)) :: byte"
  let ?i = "of_nat (pkt_identifier p) :: byte"
  let ?h0 = "[?c, ?i] @ be_bytes 2 0 @ ?auth"
  have c: "valueOf (pkt_code p) < 256"
  proof (rule ccontr)
    assume "\<not> valueOf (pkt_code p) < 256"
    then have "RadiusPacket_toWire nd p secret resp = Inl (RangeError ''value is out of range'')"
      by (simp add: RadiusPacket_toWire_def writeUIntBE_def)
    with w show False by simp
  qed
  have i: "pkt_identifier p < 256"
  proof (rule ccontr)
    assume "\<not> pkt_identifier p < 256"
    then have "RadiusPacket_toWire nd p secret resp = Inl (RangeError ''value is out of range'')"
      using c by (simp add: RadiusPacket_toWire_def writeUIntBE_def)
    with w show False by simp
  qed
  note eq = RadiusPacket_toWire_eq [OF c i la, of nd secret resp]
  from w eq obtain b4 len where
    l: "toWire_loop nd ?as (copy ?h0 (Buffer_alloc 4096) 0) 20 secret ?auth = Inr (b4, len)"
    by (auto split: sum.splits)
  have "20 \<le> length (copy ?h0 (Buffer_alloc 4096) 0)" by simp
  from toWire_loop_Inr [OF l this] have
    b4: "b4 = copy ?C (copy ?h0 (Buffer_alloc 4096) 0) 20" and len: "len = 20 + length ?C"
    and le: "20 + length ?C \<le> 4096" and fits: "list_all (\<lambda>a. fits_fields nd a secret ?auth) ?as"
    by simp_all
  from packet_patch [OF la le, of ?c ?i] obtain o5 where
    p5: "writeUIntBE (copy ?C (copy ?h0 (Buffer_alloc 4096) 0) 20) (int (20 + length ?C)) 2 2
         = Inr (copy (be_bytes 2 (20 + length ?C)) (copy (?h0 @ ?C) (Buffer_alloc 4096) 0) 2, o5)"
    and s: "slice (copy (be_bytes 2 (20 + length ?C)) (copy (?h0 @ ?C) (Buffer_alloc 4096) 0) 2) 0 (20 + length ?C)
         = [?c, ?i] @ be_bytes 2 (20 + length ?C) @ ?auth @ ?C"
    by blast
  have "RadiusPacket_toWire nd p secret resp =
        Inr (if resp then response_image nd p secret else request_image nd p secret)"
    unfolding eq l b4 len
    by (simp only: sum.case prod.case p5 s Let_def request_image_def response_image_def)
  with w c i le fits show ?thesis by simp
qed

lemma RadiusPacket_toWire_fits:
  assumes c: "valueOf (pkt_code p) < 256" and i: "pkt_identifier p < 256"
    and la: "length (pkt_authenticator p) = 16"
    and fits: "list_all (\<lambda>a. fits_fields nd a secret (pkt_authenticator p)) (attrs (pkt_attributes p))"
    and room: "20 + length (wire_images nd (attrs (pkt_attributes p)) secret (pkt_authenticator p)) < 4096"
  shows "RadiusPacket_toWire nd p secret resp
         = Inr (if resp then response_image nd p secret else request_image nd p secret)"
proof -
  let ?as = "attrs (pkt_attributes p)"
  let ?auth = "pkt_authenticator p"
  let ?C = "wire_images nd ?as secret ?auth"
  let ?c = "of_nat (valueOf (pkt_code p)) :: byte"
  let ?i = "of_nat (pkt_identifier p) :: byte"
  let ?h0 = "[?c, ?i] @ be_bytes 2 0 @ ?auth"
  note eq = RadiusPacket_toWire_eq [OF c i la, of nd secret resp]
  have "20 + length ?C < length (copy ?h0 (Buffer_alloc 4096) 0)" using room by simp
  note l = toWire_loop_fits [OF fits this]
  from room have le: "20 + length ?C \<le> 4096" by simp
  from packet_patch [OF la le, of ?c ?i] obtain o5 where
    p5: "writeUIntBE (copy ?C (copy ?h0 (Buffer_alloc 4096) 0) 20) (int (20 + length ?C)) 2 2
         = Inr (copy (be_bytes 2 (20 + length ?C)) (copy (?h0 @ ?C) (Buffer_alloc 4096) 0) 2, o5)"
    by blast
  have "\<exists>w. RadiusPacket_toWire nd p secret resp = Inr w"
    unfolding eq l by (simp only: sum.case prod.case p5 Let_def) simp
  then obtain w where w: "RadiusPacket_toWire nd p secret resp = Inr w" ..
  from RadiusPacket_toWire_Inr [OF w la] w show ?thesis by simp
qed

lemma RadiusPacket_toWire_overflow:
  assumes c: "valueOf (pkt_code p) < 256" and i: "pkt_identifier p < 256"
    and la: "length (pkt_authenticator p) = 16"
    and fits: "list_all (\<lambda>a. fits_fields nd a secret (pkt_authenticator p)) (attrs (pkt_attributes p))"
    and ne: "attrs (pkt_attributes p) \<noteq> []"
    and big: "4096 \<le> 20 + length (wire_images nd (attrs (pkt_attributes p)) secret (pkt_authenticator p))"
  shows "RadiusPacket_toWire nd p secret resp
         = Inl (RangeError ''attributes will not fit in buffer'')"
proof -
  let ?as = "attrs (pkt_attributes p)"
  let ?auth = "pkt_authenticator p"
  let ?C = "wire_images nd ?as secret ?auth"
  let ?c = "of_nat (valueOf (pkt_code p)) :: byte"
  let ?i = "of_nat (pkt_identifier p) :: byte"
  let ?h0 = "[?c, ?i] @ be_bytes 2 0 @ ?auth"
  note eq = RadiusPacket_toWire_eq [OF c i la, of nd secret resp]
  have "length (copy ?h0 (Buffer_alloc 4096) 0) \<le> 20 + length ?C" using big by simp
  note l = toWire_loop_overflow [OF fits ne this]
  show ?thesis unfolding eq l by simp
qed

lemma wire_image_shape:
  assumes f: "fits_fields nd a secret auth0" and p: "plain_attribute D a"
  shows "3 \<le> length (wire_image nd a secret auth0)"
    and "length (wire_image nd a secret auth0) \<le> 255"
    and "wire_image nd a secret auth0 ! 1 = of_nat (length (wire_image nd a secret auth0))"
proof -
  from p have voc: "value_of_class (realType (attr_dict a)) (avalue a)"
    and ne: "flags_encrypt (attr_dict a) = None"
    by (simp_all add: plain_attribute_def)
  from value_roundtrip [OF voc] obtain b where b: "toBuffer (avalue a) = Inr b" "1 \<le> length b"
    by blast
  from b ne have wd: "wire_data nd a secret auth0 = b" by (simp add: wire_data_def)
  show "3 \<le> length (wire_image nd a secret auth0)"
    using b(2) by (simp add: length_wire_image wd)
  show "length (wire_image nd a secret auth0) \<le> 255"
    using f by (simp add: fits_fields_def Let_def)
  show "wire_image nd a secret auth0 ! 1 = of_nat (length (wire_image nd a secret auth0))"
    unfolding length_wire_image
    by (simp add: wire_image_def Let_def split: option.splits)
qed

lemma Attribute_fromWire_wire_image:
  assumes f: "fits_fields nd a secret auth0" and p: "plain_attribute D a"
  shows "\<exists>b'. Attribute_fromWire nd D (wire_image nd a secret auth0) sec auth = Inr (a, b', D)
              \<and> length b' = length (wire_image nd a secret auth0)"
proof (cases "ent_vendor (attr_dict a)")
  case None
  from Attribute_fromWire_plain [OF f p None] show ?thesis by simp
next
  case (Some v)
  from Attribute_fromWire_vendor [OF f p Some] show ?thesis .
qed

lemma parseAttributes_loop_images:
  assumes "list_all (\<lambda>a. fits_fields nd a secret auth0 \<and> plain_attribute D a) as"
  shows "\<exists>buf'. parseAttributes_loop nd sec auth (pre @ wire_images nd as secret auth0)
                   (length pre) acc D = Some (Inr (acc @ as, buf', D))"
  using assms
proof (induction as arbitrary: pre acc)
  case Nil
  show ?case by (subst parseAttributes_loop.simps) simp
next
  case (Cons a as)
  let ?W = "wire_image nd a secret auth0"
  let ?C = "wire_images nd as secret auth0"
  let ?buf = "pre @ ?W @ ?C"
  from Cons.prems have f: "fits_fields nd a secret auth0" and p: "plain_attribute D a"
    and rest: "list_all (\<lambda>a. fits_fields nd a secret auth0 \<and> plain_attribute D a) as"
    by simp_all
  note sh = wire_image_shape [OF f p]
  have n1: "?buf ! (length pre + 1) = of_nat (length ?W)"
    using sh(1,3) by (simp add: nth_append)
  have u: "unat (?buf ! (length pre + 1)) = length ?W"
    unfolding n1 by (rule unat_of_nat_byte) (rule sh(2))
  have sl: "slice ?buf (length pre) (length pre + length ?W) = ?W"
    by (simp add: slice_def)
  from Attribute_fromWire_wire_image [OF f p, of sec auth] obtain b' where
    d: "Attribute_fromWire nd D ?W sec auth = Inr (a, b', D)" and lb: "length b' = length ?W"
    by blast
  have cp: "copy b' ?buf (length pre) = (pre @ b') @ ?C"
    by (simp add: copy_def lb)
  from Cons.IH [OF rest, of "pre @ b'" "acc @ [a]"] obtain buf' where
    ih: "parseAttributes_loop nd sec auth ((pre @ b') @ ?C) (length pre + length ?W) (acc @ [a]) D
         = Some (Inr (acc @ a # as, buf', D))"
    by (auto simp: lb)
  have "parseAttributes_loop nd sec auth ?buf (length pre) acc D = Some (Inr (acc @ a # as, buf', D))"
  proof -
    from sh(1) have "?W \<noteq> []" by auto
    then have c1: "length pre < length ?buf" by simp
    have c2: "2 < length ?buf - length pre" using sh(1) by simp
    show ?thesis
      by (subst parseAttributes_loop.simps)
        (simp only: c1 c2 if_True u sl d cp ih sum.case prod.case)
  qed
  then show ?case by auto
qed

lemma sample_dictionary_built:
  "(case addVendor empty_Dictionary ''Cisco'' 9 [] of
      Inl e \<Rightarrow> Inl e
    | Inr D1 \<Rightarrow>
   (case addAttributeSpec D1 (vendors D1 (KNum 9)) ''Cisco-AVPair'' 1 ''string'' [] of
      Inl e \<Rightarrow> Inl e
    | Inr D2 \<Rightarrow>
   (case addAttributeSpec D2 None ''User-Name'' 1 ''string'' [] of
      Inl e \<Rightarrow> Inl e
    | Inr D3 \<Rightarrow> addAttributeSpec D3 None ''Vendor-Specific'' 26 ''vsa'' [])))
   = Inr sample_dictionary"
proof -
  have l: "toLowerCase ''Cisco'' = ''cisco''" "toLowerCase ''Cisco-AVPair'' = ''cisco-avpair''"
    "toLowerCase ''User-Name'' = ''user-name''" "toLowerCase ''Vendor-Specific'' = ''vendor-specific''"
    "toLowerCase ''string'' = ''string''" "toLowerCase ''vsa'' = ''vsa''"
    by code_simp+
  have o: "\<not> is_octets_n ''string''" "\<not> is_octets_n ''vsa''"
    by (simp_all add: is_octets_n_def)
  show ?thesis
    by (simp add: addVendor_def Vendor_new_def empty_Dictionary_def addAttributeSpec_def
        DictionaryEntry_new_def l o typeMap_def Let_def sample_dictionary_def cisco_def
        cisco_avpair_def user_name_def vendor_specific_def fun_upd_twist
        numeral_2_eq_2 numeral_3_eq_3)
qed


lemma length_sample_digest: "length (sample_digest m) = 16"
  by (simp add: sample_digest_def)

lemma response_image_eq:
  assumes la: "length (pkt_authenticator p) = 16"
    and dg: "length (digest nd (request_image nd p secret @ secret)) = 16"
  shows "response_image nd p secret =
     [of_nat (valueOf (pkt_code p)), of_nat (pkt_identifier p)]
     @ be_bytes 2 (20 + length (wire_images nd (attrs (pkt_attributes p)) secret (pkt_authenticator p)))
     @ digest nd (request_image nd p secret @ secret)
     @ wire_images nd (attrs (pkt_attributes p)) secret (pkt_authenticator p)"
proof -
  have "copy d ([c, i] @ l @ a @ C) 4 = [c, i] @ l @ d @ C"
    if "length l = 2" "length a = 16" "length d = 16" for c i :: byte and l a d C
    using that by (simp add: copy_def)
  from this [OF _ la dg] show ?thesis
    by (simp add: response_image_def request_image_def Let_def)
qed

lemma RadiusPacket_fromWire_image:
  assumes c: "valueOf (pkt_code p) < 256" and code: "valid_code (pkt_code p)"
    and i: "pkt_identifier p < 256"
    and ld: "length d = 16"
    and ok: "list_all (\<lambda>a. fits_fields nd a secret auth0 \<and> plain_attribute D a) as"
    and lc: "20 + length (wire_images nd as secret auth0) \<le> 4096"
  shows "\<exists>w'. RadiusPacket_fromWire nd D
             ([of_nat (valueOf (pkt_code p)), of_nat (pkt_identifier p)]
              @ be_bytes 2 (20 + length (wire_images nd as secret auth0)) @ d
              @ wire_images nd as secret auth0) sec
         = Some (Inr (\<lparr>pkt_code = pkt_code p, pkt_identifier = pkt_identifier p,
                        pkt_authenticator = d, pkt_attributes = AttributeList_new as True,
                        frozen = True\<rparr>, w', D))"
proof -
  let ?C = "wire_images nd as secret auth0"
  let ?c = "of_nat (valueOf (pkt_code p)) :: byte"
  let ?i = "of_nat (pkt_identifier p) :: byte"
  let ?hd = "[?c, ?i] @ be_bytes 2 (20 + length ?C) @ d"
  let ?w = "[?c, ?i] @ be_bytes 2 (20 + length ?C) @ d @ ?C"
  have lw: "length ?w = 20 + length ?C" using ld by simp
  have "20 + length ?C < 2 ^ (8 * 2)" using lc by simp
  from readUIntBE_be_bytes [OF this, of "[?c, ?i]" "d @ ?C"]
  have rl: "readUIntBE ?w 2 2 = 20 + length ?C" by (simp add: numeral_2_eq_2 [symmetric])
  have w0: "uint (?w ! 0) = int (valueOf (pkt_code p))"
    using c by (simp add: uint_word_of_int_byte [of "int (valueOf (pkt_code p))", simplified])
  have w1: "uint (?w ! 1) = int (pkt_identifier p)"
    using i by (simp add: uint_word_of_int_byte [of "int (pkt_identifier p)", simplified])
  have cg: "Code_get (Number_toString (int (valueOf (pkt_code p)))) = Some (pkt_code p)"
    using code by (simp add: valid_code_def)
  have au: "slice ?w 4 20 = d" using ld by (simp add: slice_def)
  from parseAttributes_loop_images [OF ok, of sec d ?hd "[]"] obtain buf' where
    "parseAttributes_loop nd sec d (?hd @ ?C) (length ?hd) [] D = Some (Inr (as, buf', D))"
    by auto
  then have pl: "parseAttributes_loop nd sec d ?w 20 [] D = Some (Inr (as, buf', D))"
    using ld by simp
  have new: "RadiusPacket_new (Some (pkt_code p)) (int (pkt_identifier p)) d
               (TheList (AttributeList_new as True))
             = Inr \<lparr>pkt_code = pkt_code p, pkt_identifier = pkt_identifier p,
                    pkt_authenticator = d, pkt_attributes = AttributeList_new as True,
                    frozen = False\<rparr>"
    using i ld by (simp add: RadiusPacket_new_def)
  have "RadiusPacket_fromWire nd D ?w sec
         = Some (Inr (\<lparr>pkt_code = pkt_code p, pkt_identifier = pkt_identifier p,
                        pkt_authenticator = d, pkt_attributes = AttributeList_new as True,
                        frozen = True\<rparr>, buf', D))"
    unfolding RadiusPacket_fromWire_def AttributeList_fromWire_def parseAttributes_def
    by (simp only: lw rl w0 w1 cg au pl new Let_def) (simp add: new)
  then show ?thesis by blast
qed


text \<open>
  Claim C1, for the packets that can be sent and whose attributes the decoder can read.
  Let \<open>p\<close> be a packet built by the constructor from a code of the table, an
  identifier and an authenticator (so the identifier is in 0..255 and the authenticator
  has 16 bytes), with attributes that the dictionary of the decoder describes, that
  hold a value of the class of their entry, and that carry no \<open>encrypt\<close> flag. If
  \<open>p.toWire(secret, true)\<close> returns \<open>w\<close>, then \<open>RadiusPacket.fromWire(w, secret)\<close>
  returns a packet with the same code, the same identifier, and the same attributes in
  the same order (the same entries with the same values, hence the same number and the
  same names and values); the dictionary is unchanged; and the authenticator of the
  decoded packet is the digest of the first four bytes of \<open>w\<close>, the authenticator of
  \<open>p\<close>, the attribute bytes of \<open>w\<close> and the secret. The digest is any function
  that returns 16 bytes.
\<close>

theorem fromWire_toWire_roundtrip:
  assumes new: "RadiusPacket_new (Some c) i auth arg = Inr p"
    and code: "valid_code c"
    and dg: "\<And>x. length (digest nd x) = 16"
    and plain: "list_all (plain_attribute D) (attrs (pkt_attributes p))"
    and enc: "RadiusPacket_toWire nd p secret True = Inr w"
  shows "\<exists>p' w'. RadiusPacket_fromWire nd D w (Some secret) = Some (Inr (p', w', D))
           \<and> pkt_code p' = c
           \<and> int (pkt_identifier p') = i
           \<and> attrs (pkt_attributes p') = attrs (pkt_attributes p)
           \<and> map (\<lambda>a. (attr_name a, attr_value a)) (attrs (pkt_attributes p'))
               = map (\<lambda>a. (attr_name a, attr_value a)) (attrs (pkt_attributes p))
           \<and> pkt_authenticator p'
               = digest nd (take 4 w @ auth @ drop 20 w @ secret)"
proof -
  let ?as = "attrs (pkt_attributes p)"
  let ?C = "wire_images nd ?as secret (pkt_authenticator p)"
  let ?d = "digest nd (request_image nd p secret @ secret)"
  from new have pc: "pkt_code p = c" and pi: "int (pkt_identifier p) = i"
    and pa: "pkt_authenticator p = auth" and la: "length (pkt_authenticator p) = 16"
    by (auto simp: RadiusPacket_new_def split: if_splits)
  from RadiusPacket_toWire_Inr [OF enc la] have
    w: "w = response_image nd p secret" and cl: "valueOf (pkt_code p) < 256"
    and il: "pkt_identifier p < 256" and lc: "20 + length ?C \<le> 4096"
    and fits: "list_all (\<lambda>a. fits_fields nd a secret (pkt_authenticator p)) ?as"
    by simp_all
  from fits plain have ok:
    "list_all (\<lambda>a. fits_fields nd a secret (pkt_authenticator p) \<and> plain_attribute D a) ?as"
    by (simp add: list_all_iff)
  have w': "w = [of_nat (valueOf (pkt_code p)), of_nat (pkt_identifier p)]
     @ be_bytes 2 (20 + length ?C) @ ?d @ ?C"
    unfolding w by (rule response_image_eq [OF la dg])
  have t4: "take 4 w = [of_nat (valueOf (pkt_code p)), of_nat (pkt_identifier p)]
     @ be_bytes 2 (20 + length ?C)"
    unfolding w' by simp
  have d20: "drop 20 w = ?C"
    unfolding w' by (simp add: dg)
  have ri: "request_image nd p secret = take 4 w @ auth @ drop 20 w"
    unfolding t4 d20 by (simp add: request_image_def Let_def pa)
  from code pc have vc: "valid_code (pkt_code p)" by simp
  from RadiusPacket_fromWire_image [OF cl vc il dg ok lc, of "request_image nd p secret @ secret" "Some secret"]
  obtain w2 where
    "RadiusPacket_fromWire nd D w (Some secret)
       = Some (Inr (\<lparr>pkt_code = pkt_code p, pkt_identifier = pkt_identifier p,
                      pkt_authenticator = ?d, pkt_attributes = AttributeList_new ?as True,
                      frozen = True\<rparr>, w2, D))"
    unfolding w' by blast
  then show ?thesis
    using pc pi ri by (simp add: AttributeList_new_def)
qed

section \<open>Examples of the packet round trip\<close>

lemma valid_code_2: "valid_code (Code 2)"
proof -
  have "Number_toString 2 = ''2''" by code_simp
  then show ?thesis by (simp add: valid_code_def Code_get_def Code_properties_eq)
qed

lemma plain_alice: "plain_attribute sample_dictionary alice"
  by (simp add: plain_attribute_def registered_def alice_def user_name_def sample_dictionary_def
      isVSA_def realType_def flags_encrypt_def is_ANumeric_def Let_def)

lemma plain_xyzw: "plain_attribute sample_dictionary xyzw"
  by (simp add: plain_attribute_def registered_def xyzw_def cisco_avpair_def cisco_def
      vendor_specific_def sample_dictionary_def isVSA_def realType_def flags_encrypt_def is_ANumeric_def Let_def)

lemma fits_alice: "fits_fields nd alice secret auth"
  by (simp add: fits_fields_def length_wire_image wire_data_def alice_def user_name_def
      flags_encrypt_def Let_def)

lemma fits_xyzw: "fits_fields nd xyzw secret auth"
  by (simp add: fits_fields_def length_wire_image wire_data_def xyzw_def cisco_avpair_def
      cisco_def flags_encrypt_def Let_def)

lemma sample_packet_new:
  "RadiusPacket_new (Some (Code 2)) 7 zero_authenticator (Iterable [alice, xyzw]) = Inr sample_packet"
  by (simp add: RadiusPacket_new_def sample_packet_def zero_authenticator_def)

lemma sample_packet_toWire:
  "RadiusPacket_toWire sample_node sample_packet sample_secret True
   = Inr (response_image sample_node sample_packet sample_secret)"
proof -
  have a: "attrs (pkt_attributes sample_packet) = [alice, xyzw]"
    "pkt_authenticator sample_packet = zero_authenticator"
    "valueOf (pkt_code sample_packet) = 2" "pkt_identifier sample_packet = 7"
    by (simp_all add: sample_packet_def AttributeList_new_def)
  have l: "\<And>au. length (wire_image sample_node alice sample_secret au) = 7"
    "\<And>au. length (wire_image sample_node xyzw sample_secret au) = 12"
    by (simp_all add: length_wire_image wire_data_def alice_def user_name_def xyzw_def
        cisco_avpair_def cisco_def flags_encrypt_def)
  have "RadiusPacket_toWire sample_node sample_packet sample_secret True
        = Inr (if True then response_image sample_node sample_packet sample_secret
               else request_image sample_node sample_packet sample_secret)"
    by (rule RadiusPacket_toWire_fits)
      (simp_all add: a l fits_alice fits_xyzw zero_authenticator_def)
  then show ?thesis by simp
qed

text \<open>The Access-Accept with the attributes \<open>alice\<close> and \<open>xyzw\<close>, sent and read back.\<close>

theorem fromWire_toWire_roundtrip_witness:
  "RadiusPacket_new (Some (Code 2)) 7 zero_authenticator (Iterable [alice, xyzw]) = Inr sample_packet
   \<and> valid_code (Code 2)
   \<and> list_all (plain_attribute sample_dictionary) [alice, xyzw]
   \<and> (\<exists>w. RadiusPacket_toWire sample_node sample_packet sample_secret True = Inr w
        \<and> (\<exists>p' w'. RadiusPacket_fromWire sample_node sample_dictionary w (Some sample_secret)
                      = Some (Inr (p', w', sample_dictionary))
              \<and> pkt_code p' = Code 2
              \<and> pkt_identifier p' = 7
              \<and> attrs (pkt_attributes p') = [alice, xyzw]
              \<and> map (\<lambda>a. (attr_name a, attr_value a)) (attrs (pkt_attributes p'))
                  = [(''User-Name'', VBuffer [0x61, 0x6c, 0x69, 0x63, 0x65]),
                     (''Cisco-AVPair'', VBuffer [0x78, 0x79, 0x7a, 0x77])]
              \<and> pkt_authenticator p'
                  = sample_digest (take 4 w @ zero_authenticator @ drop 20 w @ sample_secret)))"
proof -
  have a: "attrs (pkt_attributes sample_packet) = [alice, xyzw]"
    by (simp add: sample_packet_def AttributeList_new_def)
  have d: "\<And>x. length (digest sample_node x) = 16"
    by (simp add: sample_node_def length_sample_digest)
  have pl: "list_all (plain_attribute sample_dictionary) (attrs (pkt_attributes sample_packet))"
    by (simp add: a plain_alice plain_xyzw)
  have nv: "map (\<lambda>a. (attr_name a, attr_value a)) [alice, xyzw]
        = [(''User-Name'', VBuffer [0x61, 0x6c, 0x69, 0x63, 0x65]),
           (''Cisco-AVPair'', VBuffer [0x78, 0x79, 0x7a, 0x77])]"
    by (simp add: attr_name_def attr_value_def alice_def xyzw_def user_name_def cisco_avpair_def)
  from fromWire_toWire_roundtrip [OF sample_packet_new valid_code_2 d pl sample_packet_toWire]
  obtain p' w' where
    "RadiusPacket_fromWire sample_node sample_dictionary
        (response_image sample_node sample_packet sample_secret) (Some sample_secret)
       = Some (Inr (p', w', sample_dictionary))"
    "pkt_code p' = Code 2" "int (pkt_identifier p') = 7"
    "attrs (pkt_attributes p') = [alice, xyzw]"
    "pkt_authenticator p'
      = digest sample_node (take 4 (response_image sample_node sample_packet sample_secret)
          @ zero_authenticator @ drop 20 (response_image sample_node sample_packet sample_secret)
          @ sample_secret)"
    unfolding a by blast
  then show ?thesis
    using sample_packet_new valid_code_2 plain_alice plain_xyzw sample_packet_toWire nv
    by (simp add: sample_node_def)
qed

lemma length_concat_replicate: "length (concat (replicate n x)) = n * length x"
  by (induction n) simp_all

lemma fits_long_name: "fits_fields nd long_name secret auth"
  by (simp add: fits_fields_def length_wire_image wire_data_def long_name_def user_name_def
      flags_encrypt_def Let_def)

lemma plain_long_name: "plain_attribute sample_dictionary long_name"
  by (simp add: plain_attribute_def registered_def long_name_def user_name_def
      sample_dictionary_def isVSA_def realType_def flags_encrypt_def is_ANumeric_def Let_def)

text \<open>
  A packet built from a valid code, identifier and authenticator and from attributes of
  the dictionary that \<open>toWire\<close> refuses: its 4100 bytes do not fit the buffer of 4096
  bytes, and there is no encoding to decode.
\<close>

theorem toWire_big_packet_counterexample:
  "RadiusPacket_new (Some (Code 2)) 7 zero_authenticator (Iterable (replicate 16 long_name))
     = Inr big_packet
   \<and> valid_code (Code 2)
   \<and> list_all (plain_attribute sample_dictionary) (replicate 16 long_name)
   \<and> RadiusPacket_toWire sample_node big_packet sample_secret True
       = Inl (RangeError ''attributes will not fit in buffer'')"
proof -
  have n: "RadiusPacket_new (Some (Code 2)) 7 zero_authenticator (Iterable (replicate 16 long_name))
     = Inr big_packet"
    by (simp add: RadiusPacket_new_def big_packet_def zero_authenticator_def)
  have a: "attrs (pkt_attributes big_packet) = replicate 16 long_name"
    "pkt_authenticator big_packet = zero_authenticator"
    "valueOf (pkt_code big_packet) = 2" "pkt_identifier big_packet = 7"
    by (simp_all add: big_packet_def AttributeList_new_def)
  have l: "\<And>au. length (wire_image sample_node long_name sample_secret au) = 255"
    by (simp add: length_wire_image wire_data_def long_name_def user_name_def flags_encrypt_def)
  have pl: "list_all (plain_attribute sample_dictionary) (replicate 16 long_name)"
    by (simp add: list_all_iff plain_long_name)
  have "RadiusPacket_toWire sample_node big_packet sample_secret True
       = Inl (RangeError ''attributes will not fit in buffer'')"
    by (rule RadiusPacket_toWire_overflow)
      (simp_all add: a l length_concat_replicate list_all_iff fits_long_name
        zero_authenticator_def)
  with n valid_code_2 pl show ?thesis by simp
qed

section \<open>Properties of the client\<close>

lemma length_randomAuthenticator [simp]: "length (randomAuthenticator rnd n) = 16"
  by (simp add: randomAuthenticator_def)

lemma RadiusPacket_toWire_NoAttributes:
  assumes c: "valueOf code < 256" and i: "i < 256" and la: "length auth = 16"
  shows "RadiusPacket_toWire nd
           \<lparr>pkt_code = code, pkt_identifier = i, pkt_authenticator = auth,
            pkt_attributes = AttributeList_new [] False, frozen = False\<rparr> secret False
         = Inr ([of_nat (valueOf code), of_nat i] @ be_bytes 2 20 @ auth)"
proof -
  let ?p = "\<lparr>pkt_code = code, pkt_identifier = i, pkt_authenticator = auth,
            pkt_attributes = AttributeList_new [] False, frozen = False\<rparr>"
  have "RadiusPacket_toWire nd ?p secret False
        = Inr (if False then response_image nd ?p secret else request_image nd ?p secret)"
    by (rule RadiusPacket_toWire_fits) (simp_all add: c i la AttributeList_new_def)
  then show ?thesis by (simp add: request_image_def AttributeList_new_def)
qed

lemma getState_Inr:
  assumes "getState nd rnd code as rq n = Inr (a, rq')"
  shows "(rq_state rq n = Some a \<and> rq' = rq)
       \<or> (rq_state rq n = None \<and> n < length (rq_servers rq)
          \<and> (a_port a, a_address a) = destination code (rq_servers rq ! n)
          \<and> rq' = rq\<lparr>rq_servers := (rq_servers rq)[n := (rq_servers rq ! n)\<lparr>srv_id := srv_id (rq_servers rq ! n) + 1\<rparr>],
                      rq_state := (rq_state rq)(n \<mapsto> a)\<rparr>)"
  using assms
  by (auto simp: getState_def destination_def Let_def split: option.splits if_splits sum.splits)

lemma getState_NoAttributes:
  assumes c: "valueOf code < 256" and n: "n < length (rq_servers rq)"
  shows "\<exists>a rq'. getState nd rnd code NoAttributes rq n = Inr (a, rq')"
proof (cases "rq_state rq n")
  case None
  let ?srv = "rq_servers rq ! n"
  have new: "RadiusPacket_new (Some code) (int (srv_id ?srv mod 256)) (randomAuthenticator rnd n) NoAttributes
           = Inr \<lparr>pkt_code = code, pkt_identifier = srv_id ?srv mod 256,
                  pkt_authenticator = randomAuthenticator rnd n,
                  pkt_attributes = AttributeList_new [] False, frozen = False\<rparr>"
    by (simp add: RadiusPacket_new_def)
  have w: "RadiusPacket_toWire nd
            \<lparr>pkt_code = code, pkt_identifier = srv_id ?srv mod 256,
             pkt_authenticator = randomAuthenticator rnd n,
             pkt_attributes = AttributeList_new [] False, frozen = False\<rparr>
            (utf8_encode (srv_secret ?srv)) False
           = Inr ([of_nat (valueOf code), of_nat (srv_id ?srv mod 256)] @ be_bytes 2 20
                  @ randomAuthenticator rnd n)"
    by (rule RadiusPacket_toWire_NoAttributes) (simp_all add: c)
  show ?thesis
    unfolding getState_def using None n
    by (simp only: new w Let_def option.case sum.case if_False not_le [symmetric]) simp
next
  case (Some a)
  then show ?thesis by (simp add: getState_def)
qed


text \<open>
  The datagrams of a request whose listeners all return: there are at most
  \<open>retry * k\<close> of them, and datagram \<open>i\<close> goes to server \<open>i mod k\<close>.
\<close>

lemma send_Inr:
  assumes "send nd rnd code as rq = Inr rq'"
  shows "\<exists>a rq1. getState nd rnd code as rq (rq_attempt rq mod length (rq_servers rq)) = Inr (a, rq1)
           \<and> rq' = rq1\<lparr>rq_current := Some a, rq_timer := True,
                        rq_sent := rq_sent rq1 @ [(a_buffer a, a_port a, a_address a)]\<rparr>"
  using assms by (auto simp: send_def split: sum.splits)

lemma map_list_update_same:
  "n < length xs \<Longrightarrow> f x = f (xs ! n) \<Longrightarrow> map f (xs[n := x]) = map f xs"
  by (simp add: map_update list_update_same_conv)

lemma send_round_robin:
  assumes inv: "round_robin code srvs retry rq"
    and nt: "\<not> rq_timer rq"
    and ls: "length (rq_sent rq) = rq_attempt rq"
    and lt: "rq_attempt rq < retry * length srvs"
    and s: "send nd rnd code as rq = Inr rq'"
  shows "round_robin code srvs retry rq' \<and> rq_timer rq' \<and> rq_attempt rq' = rq_attempt rq
         \<and> rq_settled rq' = rq_settled rq \<and> rq_closed rq' = rq_closed rq"
proof -
  let ?k = "length srvs"
  let ?n = "rq_attempt rq mod ?k"
  let ?d = "destination code"
  from inv have sv: "map ?d (rq_servers rq) = map ?d srvs"
    and st: "\<And>n a. rq_state rq n = Some a \<Longrightarrow> n < ?k \<and> (a_port a, a_address a) = ?d (srvs ! n)"
    and sn: "map snd (rq_sent rq) = map (\<lambda>i. ?d (srvs ! (i mod ?k))) [0..<length (rq_sent rq)]"
    by (simp_all add: round_robin_def)
  from sv have lk: "length (rq_servers rq) = ?k" by (metis length_map)
  from lt have k0: "0 < ?k" by (cases "?k = 0") simp_all
  then have nk: "?n < ?k" by simp
  from send_Inr [OF s] lk obtain a rq1 where
    g: "getState nd rnd code as rq ?n = Inr (a, rq1)"
    and r: "rq' = rq1\<lparr>rq_current := Some a, rq_timer := True,
                       rq_sent := rq_sent rq1 @ [(a_buffer a, a_port a, a_address a)]\<rparr>"
    by auto
  have dn: "?d (rq_servers rq ! ?n) = ?d (srvs ! ?n)"
    using sv nk lk by (metis nth_map)
  have main: "(a_port a, a_address a) = ?d (srvs ! ?n) \<and> rq_sent rq1 = rq_sent rq
        \<and> rq_attempt rq1 = rq_attempt rq \<and> rq_settled rq1 = rq_settled rq
        \<and> rq_closed rq1 = rq_closed rq \<and> map ?d (rq_servers rq1) = map ?d srvs
        \<and> (\<forall>n b. rq_state rq1 n = Some b \<longrightarrow> n < ?k \<and> (a_port b, a_address b) = ?d (srvs ! n))"
  proof -
    from getState_Inr [OF g] show ?thesis
    proof (elim disjE conjE)
      assume "rq_state rq ?n = Some a" "rq1 = rq"
      with st [of ?n a] sv st show ?thesis by simp
    next
      assume fresh: "rq_state rq ?n = None" "(a_port a, a_address a) = ?d (rq_servers rq ! ?n)"
          "rq1 = rq\<lparr>rq_servers := (rq_servers rq)[?n := (rq_servers rq ! ?n)\<lparr>srv_id := srv_id (rq_servers rq ! ?n) + 1\<rparr>],
                      rq_state := (rq_state rq)(?n \<mapsto> a)\<rparr>"
      have "map ?d ((rq_servers rq)[?n := (rq_servers rq ! ?n)\<lparr>srv_id := srv_id (rq_servers rq ! ?n) + 1\<rparr>])
            = map ?d (rq_servers rq)"
        by (rule map_list_update_same) (simp_all add: nk lk destination_def)
      with fresh sv dn st nk show ?thesis by auto
    qed
  qed
  then have da: "(a_port a, a_address a) = ?d (srvs ! ?n)"
    and s1: "rq_sent rq1 = rq_sent rq" and a1: "rq_attempt rq1 = rq_attempt rq"
    and e1: "rq_settled rq1 = rq_settled rq" and c1: "rq_closed rq1 = rq_closed rq"
    and sv1: "map ?d (rq_servers rq1) = map ?d srvs"
    and st1: "\<forall>n b. rq_state rq1 n = Some b \<longrightarrow> n < ?k \<and> (a_port b, a_address b) = ?d (srvs ! n)"
    by simp_all
  have sn': "map snd (rq_sent rq') = map (\<lambda>i. ?d (srvs ! (i mod ?k))) [0..<length (rq_sent rq')]"
    using sn da ls by (simp add: r s1)
  show ?thesis
    unfolding round_robin_def
    using sv1 st1 sn' lt ls by (simp add: r s1 a1 e1 c1)
qed


lemma round_robin_start:
  assumes "srvs \<noteq> []" "1 \<le> retry"
  shows "round_robin code srvs retry (start_request nd rnd code as srvs)"
proof -
  let ?rq = "\<lparr>rq_servers = srvs, rq_state = (\<lambda>n. None), rq_attempt = 0,
              rq_current = None, rq_timer = False, rq_closed = False, rq_sent = [],
              rq_settled = None, rq_uncaught = None\<rparr>"
  have i0: "round_robin code srvs retry ?rq"
    by (simp add: round_robin_def)
  from assms have lt: "rq_attempt ?rq < retry * length srvs" by simp
  show ?thesis
  proof (cases "send nd rnd code as ?rq")
    case (Inl e)
    then show ?thesis
      using i0 by (simp add: start_request_def round_robin_def)
  next
    case (Inr rq')
    from send_round_robin [OF i0 _ _ lt Inr] Inr show ?thesis
      by (simp add: start_request_def)
  qed
qed

lemma round_robin_on_timeout:
  assumes inv: "round_robin code srvs retry rq" and t: "rq_timer rq"
  shows "round_robin code srvs retry (on_timeout nd rnd code as retry rq)"
proof -
  let ?rq1 = "rq\<lparr>rq_timer := False, rq_attempt := rq_attempt rq + 1\<rparr>"
  from inv t have ls: "length (rq_sent rq) = rq_attempt rq + 1"
    and lk: "length (rq_servers rq) = length srvs"
    by (auto simp: round_robin_def dest: map_eq_imp_length_eq)
  from inv ls have i1: "round_robin code srvs retry ?rq1"
    by (simp add: round_robin_def)
  show ?thesis
  proof (cases "rq_attempt ?rq1 < retry * length srvs")
    case True
    show ?thesis
    proof (cases "send nd rnd code as ?rq1")
      case (Inl e)
      with True i1 lk show ?thesis
        by (simp add: on_timeout_def round_robin_def Let_def)
    next
      case (Inr rq2)
      from send_round_robin [OF i1 _ _ True Inr] ls have "round_robin code srvs retry rq2"
        by simp
      with True Inr lk show ?thesis
        by (simp add: on_timeout_def Let_def)
    qed
  next
    case False
    with i1 lk show ?thesis
      by (simp add: on_timeout_def round_robin_def Let_def)
  qed
qed

lemma round_robin_on_response:
  assumes inv: "round_robin code srvs retry rq"
    and r: "on_response nd code (rq, D) msg rinfo = Some (rq', D')"
  shows "round_robin code srvs retry rq'"
proof -
  from r have "rq' = rq \<or> (\<exists>x. rq' = rq\<lparr>rq_timer := False, rq_closed := True, rq_settled := x\<rparr>)"
    by (auto simp: on_response_def Let_def split: option.splits if_splits sum.splits)
  with inv show ?thesis
    by (auto simp: round_robin_def)
qed

lemma round_robin_run:
  assumes "round_robin code srvs retry (fst s)"
    and "run nd rnd code as retry s evs = Some s'"
  shows "round_robin code srvs retry (fst s')"
  using assms
proof (induction evs arbitrary: s)
  case Nil
  then show ?case by simp
next
  case (Cons ev evs)
  from Cons.prems(2) obtain s1 where
    st: "step nd rnd code as retry s ev = Some s1"
    and rn: "run nd rnd code as retry s1 evs = Some s'"
    by (auto split: option.splits)
  have "round_robin code srvs retry (fst s1)"
  proof (cases ev)
    case TimerFires
    with st Cons.prems(1) show ?thesis
      by (auto simp: step_def round_robin_on_timeout split: if_splits)
  next
    case (Message msg rinfo)
    show ?thesis
    proof (cases "rq_closed (fst s)")
      case True
      with st Message Cons.prems(1) show ?thesis by (simp add: step_def)
    next
      case False
      with st Message have "on_response nd code (fst s, snd s) msg rinfo = Some (fst s1, snd s1)"
        by (simp add: step_def)
      from round_robin_on_response [OF Cons.prems(1) this] show ?thesis .
    qed
  qed
  from Cons.IH [OF this rn] show ?case .
qed

lemma request_round_robin:
  assumes k: "srvs \<noteq> []" and r: "1 \<le> retry"
    and run: "request_run nd rnd D srvs retry code as evs = Some (rq, D')"
  shows "length (rq_sent rq) \<le> retry * length srvs"
    and "\<And>i. i < length (rq_sent rq) \<Longrightarrow>
           snd (rq_sent rq ! i) = destination code (srvs ! (i mod length srvs))"
proof -
  from round_robin_run [OF _ run [unfolded request_run_def]] round_robin_start [OF k r]
  have inv: "round_robin code srvs retry rq" by simp
  then show "length (rq_sent rq) \<le> retry * length srvs"
    by (simp add: round_robin_def)
  fix i assume i: "i < length (rq_sent rq)"
  from inv have "map snd (rq_sent rq)
      = map (\<lambda>i. destination code (srvs ! (i mod length srvs))) [0..<length (rq_sent rq)]"
    by (simp add: round_robin_def)
  then have "map snd (rq_sent rq) ! i
      = map (\<lambda>i. destination code (srvs ! (i mod length srvs))) [0..<length (rq_sent rq)] ! i"
    by simp
  with i show "snd (rq_sent rq ! i) = destination code (srvs ! (i mod length srvs))"
    by simp
qed


text \<open>
  A request without attributes that receives nothing: after \<open>retry * k\<close> timeouts
  and as many datagrams the promise is rejected with the error \<open>timeout\<close>.
\<close>

lemma send_NoAttributes:
  assumes c: "valueOf code < 256" and k: "0 < length (rq_servers rq)"
  shows "\<exists>a rq'. send nd rnd code NoAttributes rq = Inr rq'
           \<and> rq_current rq' = Some a
           \<and> (rq_state rq (rq_attempt rq mod length (rq_servers rq)) = None \<longrightarrow>
                (a_port a, a_address a)
                  = destination code (rq_servers rq ! (rq_attempt rq mod length (rq_servers rq))))
           \<and> rq_timer rq' \<and> rq_attempt rq' = rq_attempt rq
           \<and> rq_settled rq' = rq_settled rq \<and> rq_closed rq' = rq_closed rq
           \<and> length (rq_servers rq') = length (rq_servers rq)
           \<and> length (rq_sent rq') = length (rq_sent rq) + 1"
proof -
  let ?n = "rq_attempt rq mod length (rq_servers rq)"
  from k have "?n < length (rq_servers rq)" by simp
  from getState_NoAttributes [OF c this] obtain a rq1 where
    g: "getState nd rnd code NoAttributes rq ?n = Inr (a, rq1)" by blast
  from getState_Inr [OF g] have
    "(rq_state rq ?n = None \<longrightarrow> (a_port a, a_address a) = destination code (rq_servers rq ! ?n))
     \<and> rq_attempt rq1 = rq_attempt rq \<and> rq_settled rq1 = rq_settled rq
     \<and> rq_closed rq1 = rq_closed rq \<and> length (rq_servers rq1) = length (rq_servers rq)
     \<and> rq_sent rq1 = rq_sent rq"
    by (elim disjE conjE) simp_all
  with g show ?thesis by (simp add: send_def)
qed

lemma timers_reject:
  assumes c: "valueOf code < 256" and k: "0 < k"
    and p: "rq_timer rq" "rq_settled rq = None" "length (rq_servers rq) = k"
      "length (rq_sent rq) = rq_attempt rq + 1"
    and m: "rq_attempt rq + m = retry * k" "0 < m"
  shows "\<exists>rq'. run nd rnd code NoAttributes retry (rq, D) (replicate m TimerFires) = Some (rq', D)
           \<and> rq_settled rq' = Some (Rejected (Error ''timeout''))
           \<and> rq_closed rq' \<and> \<not> rq_timer rq'
           \<and> length (rq_sent rq') = retry * k"
  using p m
proof (induction m arbitrary: rq)
  case 0
  then show ?case by simp
next
  case (Suc m)
  let ?rq1 = "rq\<lparr>rq_timer := False, rq_attempt := rq_attempt rq + 1\<rparr>"
  show ?case
  proof (cases "m = 0")
    case True
    with Suc.prems have "\<not> rq_attempt ?rq1 < retry * length (rq_servers ?rq1)" by simp
    then have "on_timeout nd rnd code NoAttributes retry rq
               = ?rq1\<lparr>rq_closed := True, rq_settled := Some (Rejected (Error ''timeout''))\<rparr>"
      using Suc.prems(2) by (simp add: on_timeout_def Let_def)
    with True Suc.prems show ?thesis by (simp add: step_def)
  next
    case False
    with Suc.prems have lt: "rq_attempt ?rq1 < retry * length (rq_servers ?rq1)" by simp
    from k Suc.prems(3) have "0 < length (rq_servers ?rq1)" by simp
    from send_NoAttributes [OF c this, of nd rnd] obtain rq2 where
      s: "send nd rnd code NoAttributes ?rq1 = Inr rq2"
      and q: "rq_timer rq2" "rq_attempt rq2 = rq_attempt rq + 1" "rq_settled rq2 = rq_settled rq"
        "length (rq_servers rq2) = length (rq_servers rq)"
        "length (rq_sent rq2) = length (rq_sent rq) + 1"
      by auto
    have t: "on_timeout nd rnd code NoAttributes retry rq = rq2"
      using lt s by (simp add: on_timeout_def Let_def)
    have "\<exists>rq'. run nd rnd code NoAttributes retry (rq2, D) (replicate m TimerFires) = Some (rq', D)
           \<and> rq_settled rq' = Some (Rejected (Error ''timeout''))
           \<and> rq_closed rq' \<and> \<not> rq_timer rq'
           \<and> length (rq_sent rq') = retry * k"
      using q Suc.prems False by (intro Suc.IH) simp_all
    with t Suc.prems(1) show ?thesis by (simp add: step_def)
  qed
qed

lemma start_request_NoAttributes:
  assumes c: "valueOf code < 256" and k: "srvs \<noteq> []"
  shows "\<exists>a. rq_current (start_request nd rnd code NoAttributes srvs) = Some a
           \<and> (a_port a, a_address a) = destination code (srvs ! 0)
           \<and> rq_timer (start_request nd rnd code NoAttributes srvs)
           \<and> \<not> rq_closed (start_request nd rnd code NoAttributes srvs)
           \<and> rq_settled (start_request nd rnd code NoAttributes srvs) = None
           \<and> rq_attempt (start_request nd rnd code NoAttributes srvs) = 0
           \<and> length (rq_servers (start_request nd rnd code NoAttributes srvs)) = length srvs
           \<and> length (rq_sent (start_request nd rnd code NoAttributes srvs)) = 1"
proof -
  let ?rq = "\<lparr>rq_servers = srvs, rq_state = (\<lambda>n. None), rq_attempt = 0,
              rq_current = None, rq_timer = False, rq_closed = False, rq_sent = [],
              rq_settled = None, rq_uncaught = None\<rparr>"
  from k have "0 < length (rq_servers ?rq)" by simp
  from send_NoAttributes [OF c this, of nd rnd] obtain a rq' where
    "send nd rnd code NoAttributes ?rq = Inr rq'" "rq_current rq' = Some a"
    "(a_port a, a_address a) = destination code (srvs ! 0)"
    "rq_timer rq'" "rq_attempt rq' = 0" "rq_settled rq' = None" "\<not> rq_closed rq'"
    "length (rq_servers rq') = length srvs" "length (rq_sent rq') = 1"
    by auto
  then show ?thesis by (simp add: start_request_def)
qed

lemma request_times_out:
  assumes c: "valueOf code < 256" and k: "srvs \<noteq> []" and r: "1 \<le> retry"
  shows "\<exists>rq. request_run nd rnd D srvs retry code NoAttributes
                 (replicate (retry * length srvs) TimerFires) = Some (rq, D)
           \<and> rq_settled rq = Some (Rejected (Error ''timeout''))
           \<and> length (rq_sent rq) = retry * length srvs"
proof -
  let ?rq = "start_request nd rnd code NoAttributes srvs"
  from start_request_NoAttributes [OF c k, of nd rnd] have
    p: "rq_timer ?rq" "rq_settled ?rq = None" "length (rq_servers ?rq) = length srvs"
      "length (rq_sent ?rq) = rq_attempt ?rq + 1" "rq_attempt ?rq = 0"
    by auto
  from k have k0: "0 < length srvs" by simp
  with r have m: "rq_attempt ?rq + retry * length srvs = retry * length srvs"
    "0 < retry * length srvs"
    using p(5) by simp_all
  from timers_reject [OF c k0 p(1-4) m, of nd rnd D] show ?thesis
    unfolding request_run_def by blast
qed

lemma listener_never_returns:
  assumes "rq_current rq = Some cur"
  shows "on_response nd code (rq, D) short_tail_datagram (a_address cur, a_port cur) = None"
  using assms by (simp add: on_response_def RadiusPacket_fromWire_short_tail)

text \<open>
  Claim C8, at an input where the promise is never rejected. A client with one server
  sends an Access-Request without attributes. While the first attempt is pending, a
  datagram of 21 bytes (a header and one more byte) arrives from the address and port
  of the server. It is not an acceptable response, yet no timeout follows: the
  \<open>message\<close> listener calls \<open>RadiusPacket.fromWire\<close>, which never returns, so
  the run has no end, whatever the number of retries and whatever events are due after
  the datagram.
\<close>

theorem request_never_settles:
  "request_run nd rnd D [one_server] retry (Code 1) NoAttributes
     (Message short_tail_datagram (''127.0.0.1'', 1812) # evs) = None"
proof -
  let ?rq = "start_request nd rnd (Code 1) NoAttributes [one_server]"
  have d: "destination (Code 1) one_server = (1812, ''127.0.0.1'')"
    by (simp add: destination_def one_server_def Code_get_simps)
  from start_request_NoAttributes [of "Code 1" "[one_server]" nd rnd] d obtain cur where
    cur: "rq_current ?rq = Some cur" "a_port cur = 1812" "a_address cur = ''127.0.0.1''"
    and nc: "\<not> rq_closed ?rq"
    by auto
  from listener_never_returns [OF cur(1), of nd "Code 1" D] cur nc
  have "step nd rnd (Code 1) NoAttributes retry (?rq, D)
          (Message short_tail_datagram (''127.0.0.1'', 1812)) = None"
    by (simp add: step_def)
  then show ?thesis by (simp add: request_run_def)
qed

end
